theory Spec2Isabelle
  imports Complex_Main "HOL-Library.Word"
begin

section \<open>Conventions of the embedding\<close>

text \<open>
  The development embeds \<^verbatim>\<open>include/CircularBuffer.hpp\<close> and the estimator part of
  \<^verbatim>\<open>ProgressBar.cpp\<close> (the variant with \<^verbatim>\<open>constexpr\<close> constants, built without Boost,
  so that the rolling window is \<^verbatim>\<open>CircularBuffer\<close>).

  \<^item> \<^verbatim>\<open>size_t\<close> fields of the progress bar are 64-bit words, so that \<^verbatim>\<open>++m_progress\<close>,
    \<^verbatim>\<open>m_total - m_progress\<close> and the product in \<^verbatim>\<open>overall_etc\<close> wrap as the C++ does.
    Sizes of containers are natural numbers.
  \<^item> The element type \<^verbatim>\<open>T\<close> of the statistics is the one the progress bar instantiates,
    \<^verbatim>\<open>std::chrono::milliseconds::rep\<close>, a signed 64-bit integer. An element is the
    \<^typ>\<open>int\<close> it denotes; an addition carried out in \<^verbatim>\<open>T\<close> is checked against the range
    of the type, because signed overflow is undefined behaviour in C++.
  \<^item> A \<^verbatim>\<open>double\<close> is the real number it denotes: floating-point rounding is not
    part of the embedding, every operation on doubles is the exact one.
  \<^item> The algorithms of the standard library are those of libstdc++ without an execution
    policy, as in the configuration \<^verbatim>\<open>no_tbb_no_boost\<close> of the Ubuntu workflow.
  \<^item> Undefined behaviour and thrown exceptions are values of the type \<open>fault\<close>; a function
    that can run into one returns \<open>fault + 'a\<close>.
  \<^item> A \<^verbatim>\<open>steady_clock::time_point\<close> is the integer number of clock ticks
    (nanoseconds) it holds; reading the clock is an input of the model.
  \<^item> Functions keep their names, except \<^verbatim>\<open>size\<close> (here \<open>size_cb\<close>) and \<^verbatim>\<open>done\<close>
    (here \<open>done_bar\<close>); the constructors are \<open>CircularBuffer_new\<close>, \<open>ProgressBar_new\<close>
    and \<open>ProgressBar_indefinite\<close>.
\<close>

datatype fault =
    PopFrontOnEmptyDeque      \<comment> \<open>\<^verbatim>\<open>std::deque::pop_front\<close> on an empty deque (undefined)\<close>
  | SignedOverflow            \<comment> \<open>overflow of an addition in the signed type \<^verbatim>\<open>T\<close> (undefined)\<close>
  | VectorAtOutOfRange        \<comment> \<open>\<^verbatim>\<open>std::vector::at\<close> throws \<^verbatim>\<open>std::out_of_range\<close>\<close>
  | DoubleToRepOutOfRange     \<comment> \<open>conversion of a double that does not fit the integer type (undefined)\<close>

section \<open>CircularBuffer\<close>

record 'a CircularBuffer =
  m_max_size :: nat
  m_buffer :: "'a list"

text \<open>The constructor stores the size and leaves the deque empty; it checks nothing.\<close>

definition CircularBuffer_new :: "nat \<Rightarrow> 'a CircularBuffer" where
  "CircularBuffer_new sz = \<lparr>m_max_size = sz, m_buffer = []\<rparr>"

definition push_back :: "'a \<Rightarrow> 'a CircularBuffer \<Rightarrow> fault + 'a CircularBuffer" where
  "push_back item cb =
     (if length (m_buffer cb) = m_max_size cb then
        (case m_buffer cb of
           [] \<Rightarrow> Inl PopFrontOnEmptyDeque
         | front # rest \<Rightarrow> Inr (cb\<lparr>m_buffer := rest @ [item]\<rparr>))
      else Inr (cb\<lparr>m_buffer := m_buffer cb @ [item]\<rparr>))"

definition push :: "'a \<Rightarrow> 'a CircularBuffer \<Rightarrow> fault + 'a CircularBuffer" where
  "push item cb = push_back item cb"

definition pop_front :: "'a CircularBuffer \<Rightarrow> 'a option \<times> 'a CircularBuffer" where
  "pop_front cb =
     (case m_buffer cb of
        [] \<Rightarrow> (None, cb)
      | front # rest \<Rightarrow> (Some front, cb\<lparr>m_buffer := rest\<rparr>))"

definition pop :: "'a CircularBuffer \<Rightarrow> 'a option \<times> 'a CircularBuffer" where
  "pop cb = pop_front cb"

definition empty :: "'a CircularBuffer \<Rightarrow> bool" where
  "empty cb \<longleftrightarrow> m_buffer cb = []"

definition size_cb :: "'a CircularBuffer \<Rightarrow> nat" where
  "size_cb cb = length (m_buffer cb)"

definition reset :: "'a CircularBuffer \<Rightarrow> 'a CircularBuffer" where
  "reset cb = cb\<lparr>m_buffer := []\<rparr>"

text \<open>A sequence of pushes, first element first; the first fault ends it.\<close>

fun push_all :: "'a list \<Rightarrow> 'a CircularBuffer \<Rightarrow> fault + 'a CircularBuffer" where
  "push_all [] cb = Inr cb"
| "push_all (v # vs) cb =
     (case push v cb of Inl f \<Rightarrow> Inl f | Inr cb' \<Rightarrow> push_all vs cb')"

subsection \<open>Statistics\<close>

text \<open>The range of \<^verbatim>\<open>T\<close> and the addition \<^verbatim>\<open>operator+\<close> of \<^verbatim>\<open>T\<close>.\<close>

definition T_min :: int where
  "T_min = - (2 ^ 63)"

definition T_max :: int where
  "T_max = 2 ^ 63 - 1"

definition T_add :: "int \<Rightarrow> int \<Rightarrow> fault + int" where
  "T_add a b = (if T_min \<le> a + b \<and> a + b \<le> T_max then Inr (a + b) else Inl SignedOverflow)"

text \<open>
  \<^verbatim>\<open>std::reduce(first, last, 0.0)\<close> returns a generalised sum of \<^verbatim>\<open>0.0\<close> and the
  elements: the standard lets it apply \<^verbatim>\<open>std::plus<>\<close> to two elements, which adds them
  in \<^verbatim>\<open>T\<close>. The model is the function of libstdc++ (the library of \<^verbatim>\<open>g++\<close>, the compiler
  of the Ubuntu workflow) on random-access iterators. While at least four elements are
  left it computes \<^verbatim>\<open>v1 = first[0] + first[1]\<close> and \<^verbatim>\<open>v2 = first[2] + first[3]\<close> in
  \<^verbatim>\<open>T\<close>, converts both to double and adds \<^verbatim>\<open>v1 + v2\<close> to the accumulator; the
  remaining elements are converted and added one by one from the left. The plain
  accumulation from the left (libc++) is the case in which no such block is formed.
\<close>

fun reduce_from :: "real \<Rightarrow> int list \<Rightarrow> fault + real" where
  "reduce_from init (a # b # c # d # rest) =
     (case T_add a b of
        Inl f \<Rightarrow> Inl f
      | Inr v1 \<Rightarrow>
          (case T_add c d of
             Inl f \<Rightarrow> Inl f
           | Inr v2 \<Rightarrow> reduce_from (init + (real_of_int v1 + real_of_int v2)) rest))"
| "reduce_from init xs = Inr (foldl (\<lambda>acc x. acc + real_of_int x) init xs)"

definition reduce_double :: "int list \<Rightarrow> fault + real" where
  "reduce_double xs = reduce_from 0 xs"

definition mean_local :: "int CircularBuffer \<Rightarrow> fault + real option" where
  "mean_local cb =
     (if m_buffer cb = [] then Inr None
      else
        (case reduce_double (m_buffer cb) of
           Inl f \<Rightarrow> Inl f
         | Inr total_sum \<Rightarrow> Inr (Some (total_sum / real (length (m_buffer cb))))))"

text \<open>\<^verbatim>\<open>std::vector::at\<close>, and \<^verbatim>\<open>middle - 1\<close> in \<^verbatim>\<open>size_t\<close>, which wraps at zero.\<close>

definition vector_at :: "'a list \<Rightarrow> nat \<Rightarrow> fault + 'a" where
  "vector_at xs i = (if i < length xs then Inr (xs ! i) else Inl VectorAtOutOfRange)"

definition size_t_pred :: "nat \<Rightarrow> nat" where
  "size_t_pred n = (if n = 0 then 2 ^ 64 - 1 else n - 1)"

definition median_local :: "int CircularBuffer \<Rightarrow> fault + real option" where
  "median_local cb =
     (if m_buffer cb = [] then Inr None
      else
        let sorted = sort (m_buffer cb);
            middle = length sorted div 2
        in if length sorted mod 2 = 0 then
             (case vector_at sorted (size_t_pred middle) of
                Inl f \<Rightarrow> Inl f
              | Inr a \<Rightarrow>
                  (case vector_at sorted middle of
                     Inl f \<Rightarrow> Inl f
                   | Inr b \<Rightarrow>
                       (case T_add a b of
                          Inl f \<Rightarrow> Inl f
                        | Inr s \<Rightarrow> Inr (Some (real_of_int s / 2)))))
           else
             (case vector_at sorted middle of
                Inl f \<Rightarrow> Inl f
              | Inr a \<Rightarrow> Inr (Some (real_of_int a))))"

text \<open>
  \<^verbatim>\<open>std::min_element\<close> and \<^verbatim>\<open>std::max_element\<close> on a non-empty range: the scan keeps
  the first smallest (largest) element seen so far.
\<close>

fun min_element_from :: "'a::linorder \<Rightarrow> 'a list \<Rightarrow> 'a" where
  "min_element_from smallest [] = smallest"
| "min_element_from smallest (x # xs) =
     min_element_from (if x < smallest then x else smallest) xs"

fun max_element_from :: "'a::linorder \<Rightarrow> 'a list \<Rightarrow> 'a" where
  "max_element_from largest [] = largest"
| "max_element_from largest (x # xs) =
     max_element_from (if largest < x then x else largest) xs"

definition minimum_local :: "'a::linorder CircularBuffer \<Rightarrow> 'a option" where
  "minimum_local cb =
     (case m_buffer cb of [] \<Rightarrow> None | x # xs \<Rightarrow> Some (min_element_from x xs))"

definition maximum_local :: "'a::linorder CircularBuffer \<Rightarrow> 'a option" where
  "maximum_local cb =
     (case m_buffer cb of [] \<Rightarrow> None | x # xs \<Rightarrow> Some (max_element_from x xs))"

text \<open>
  \<^verbatim>\<open>mean().value_or(T())\<close>, then \<^verbatim>\<open>std::transform_reduce\<close> with
  \<^verbatim>\<open>std::pow(value - meanValue, 2)\<close>, then the division by the number of samples. The
  terms that \<^verbatim>\<open>std::transform_reduce\<close> adds are doubles, so that every grouping of its
  generalised sum has the value of the accumulation from the left.
\<close>

definition variance_local :: "int CircularBuffer \<Rightarrow> fault + real option" where
  "variance_local cb =
     (if m_buffer cb = [] then Inr None
      else
        (case mean_local cb of
           Inl f \<Rightarrow> Inl f
         | Inr mean_opt \<Rightarrow>
             let meanValue = (case mean_opt of Some m \<Rightarrow> m | None \<Rightarrow> 0);
                 var = foldl (\<lambda>acc value. acc + (real_of_int value - meanValue) ^ 2) 0
                         (m_buffer cb)
             in Inr (Some (var / real (length (m_buffer cb))))))"

definition standardDeviation_local :: "int CircularBuffer \<Rightarrow> fault + real option" where
  "standardDeviation_local cb =
     (case variance_local cb of
        Inl f \<Rightarrow> Inl f
      | Inr None \<Rightarrow> Inr None
      | Inr (Some var) \<Rightarrow> Inr (Some (sqrt var)))"

section \<open>ProgressBar\<close>

type_synonym size_t = "64 word"
type_synonym rep = "64 word"
type_synonym time_point = int

text \<open>
  A value of type \<open>rep\<close> is a \<^verbatim>\<open>std::chrono::milliseconds::rep\<close>, read with \<^const>\<open>sint\<close>.
  Of the members of the class only those that the progress counter and the estimator
  use are kept; names, characters and the layout variables belong to the rendering.
\<close>

record ProgressBar =
  m_total :: size_t
  m_progress :: size_t
  m_start_time :: time_point

text \<open>
  The variables that \<^verbatim>\<open>calculate_etc\<close> declares \<^verbatim>\<open>static\<close>. They are initialised when
  control first passes their declarations, and there is one copy of them in the process.
\<close>

record etc_statics =
  m_delta_times :: "int CircularBuffer"
  m_last_etc :: real
  m_update_counter :: "8 word"
  m_last_tick_time :: time_point

definition CIRCULAR_BUFFER :: size_t where
  "CIRCULAR_BUFFER = 10"

definition UPDATE_INTERVAL :: "8 word" where
  "UPDATE_INTERVAL = 5"

definition SIZE_MAX :: size_t where
  "SIZE_MAX = - 1"

text \<open>\<^verbatim>\<open>std::chrono::milliseconds::max().count()\<close>, returned when no estimate applies.\<close>

definition UNAVAILABLE :: rep where
  "UNAVAILABLE = 0x7FFFFFFFFFFFFFFF"

text \<open>\<^verbatim>\<open>std::numeric_limits<double>::max()\<close>.\<close>

definition DBL_MAX :: real where
  "DBL_MAX = (2 ^ 53 - 1) * 2 ^ 971"

definition ProgressBar_new :: "size_t \<Rightarrow> time_point \<Rightarrow> ProgressBar" where
  "ProgressBar_new n now = \<lparr>m_total = n, m_progress = 0, m_start_time = now\<rparr>"

definition ProgressBar_indefinite :: "time_point \<Rightarrow> ProgressBar" where
  "ProgressBar_indefinite now = \<lparr>m_total = SIZE_MAX, m_progress = 0, m_start_time = now\<rparr>"

text \<open>
  \<^verbatim>\<open>duration_cast<milliseconds>(d).count()\<close> for a duration of \<open>d\<close> nanoseconds: the
  quotient truncated towards zero.
\<close>

definition duration_cast_ms :: "int \<Rightarrow> int" where
  "duration_cast_ms d = sgn d * (\<bar>d\<bar> div 1000000)"

text \<open>The argument of the constructor of the static window.\<close>

definition etc_capacity :: "size_t \<Rightarrow> nat" where
  "etc_capacity n =
     (if n > 2 * CIRCULAR_BUFFER then unat CIRCULAR_BUFFER else unat (n div 2))"

definition init_statics :: "ProgressBar \<Rightarrow> etc_statics" where
  "init_statics bar =
     \<lparr>m_delta_times = CircularBuffer_new (etc_capacity (m_total bar)),
      m_last_etc = DBL_MAX,
      m_update_counter = 0,
      m_last_tick_time = m_start_time bar\<rparr>"

text \<open>Conversions: \<^verbatim>\<open>size_t\<close> to \<^verbatim>\<open>double\<close>, and \<^verbatim>\<open>double\<close> to the return type.\<close>

definition double_of_size_t :: "size_t \<Rightarrow> real" where
  "double_of_size_t w = real (unat w)"

definition double_to_rep :: "real \<Rightarrow> fault + rep" where
  "double_to_rep r =
     (let t = (if 0 \<le> r then \<lfloor>r\<rfloor> else \<lceil>r\<rceil>)
      in if - (2 ^ 63) \<le> t \<and> t < 2 ^ 63 then Inr (word_of_int t)
         else Inl DoubleToRepOutOfRange)"

text \<open>
  \<^verbatim>\<open>elapsed * (m_total - m_progress) / m_progress\<close>: \<^verbatim>\<open>elapsed\<close> is converted to the
  unsigned type of the other operand, and the product and the quotient are unsigned.
\<close>

definition overall_etc :: "ProgressBar \<Rightarrow> time_point \<Rightarrow> size_t" where
  "overall_etc bar now =
     word_of_int (duration_cast_ms (now - m_start_time bar))
       * (m_total bar - m_progress bar) div m_progress bar"

definition calculate_etc ::
  "ProgressBar \<Rightarrow> time_point \<Rightarrow> etc_statics option \<Rightarrow> fault + (rep \<times> etc_statics option)" where
  "calculate_etc bar now statics =
     (if m_progress bar = 0 \<or> m_total bar = 0 then Inr (UNAVAILABLE, statics)
      else
        let st = (case statics of None \<Rightarrow> init_statics bar | Some s \<Rightarrow> s);
            overall = overall_etc bar now
        in if m_update_counter st = 0
              \<or> size_cb (m_delta_times st) < unat CIRCULAR_BUFFER then
             Inr (overall,
                  Some (st\<lparr>m_last_tick_time := now, m_last_etc := double_of_size_t overall\<rparr>))
           else
             let st1 = st\<lparr>m_update_counter := m_update_counter st + 1\<rparr>
             in if unat (m_update_counter st1) mod unat UPDATE_INTERVAL = 0 then
                  let elapsed_since_last = duration_cast_ms (now - m_last_tick_time st1)
                  in (case push elapsed_since_last (m_delta_times st1) of
                        Inl f \<Rightarrow> Inl f
                      | Inr window \<Rightarrow>
                          (case mean_local window of
                             Inl f \<Rightarrow> Inl f
                           | Inr mean_opt \<Rightarrow>
                               let recent_avg_time =
                                     (case mean_opt of Some m \<Rightarrow> m | None \<Rightarrow> 0);
                                   recent_etc =
                                     recent_avg_time
                                       * (double_of_size_t (m_total bar)
                                           - double_of_size_t (m_progress bar))
                                       / double_of_size_t (m_progress bar);
                                   combined_etc =
                                     (double_of_size_t overall + recent_etc) * (1 / 2)
                               in (case double_to_rep combined_etc of
                                     Inl f \<Rightarrow> Inl f
                                   | Inr r \<Rightarrow>
                                       Inr (r,
                                            Some (st1\<lparr>m_delta_times := window,
                                                      m_last_tick_time := now,
                                                      m_last_etc := combined_etc,
                                                      m_update_counter := 0\<rparr>)))))
                else
                  (case double_to_rep (m_last_etc st1) of
                     Inl f \<Rightarrow> Inl f
                   | Inr r \<Rightarrow> Inr (r, Some st1)))"

definition is_done :: "ProgressBar \<Rightarrow> bool" where
  "is_done bar \<longleftrightarrow> m_progress bar \<ge> m_total bar"

definition done_bar :: "ProgressBar \<Rightarrow> bool" where
  "done_bar bar \<longleftrightarrow> is_done bar"

text \<open>\<^verbatim>\<open>std::clamp(v, lo, hi)\<close>.\<close>

definition clamp :: "size_t \<Rightarrow> size_t \<Rightarrow> size_t \<Rightarrow> size_t" where
  "clamp v lo hi = (if v < lo then lo else if hi < v then hi else v)"

text \<open>
  \<^verbatim>\<open>display\<close>, without the text it prints: the bar it leaves, the statics it leaves,
  and the estimate it passes to \<^verbatim>\<open>append_time\<close> under the label \<^verbatim>\<open>ETC:\<close>, if any.
  Both variants of \<^verbatim>\<open>display\<close> call \<^verbatim>\<open>calculate_etc\<close> under the same test.
\<close>

definition display ::
  "time_point \<Rightarrow> ProgressBar \<times> etc_statics option
     \<Rightarrow> fault + (ProgressBar \<times> etc_statics option \<times> rep option)" where
  "display now ps =
     (case ps of (bar, statics) \<Rightarrow>
        if m_total bar \<noteq> 0 \<and> m_total bar \<noteq> SIZE_MAX then
          let bar' = bar\<lparr>m_progress := clamp (m_progress bar) 0 (m_total bar)\<rparr>
          in (case calculate_etc bar' now statics of
                Inl f \<Rightarrow> Inl f
              | Inr (etc, statics') \<Rightarrow> Inr (bar', statics', Some etc))
        else Inr (bar, statics, None))"

definition tick ::
  "time_point \<Rightarrow> ProgressBar \<times> etc_statics option
     \<Rightarrow> fault + (ProgressBar \<times> etc_statics option \<times> rep option)" where
  "tick now ps =
     (case ps of (bar, statics) \<Rightarrow>
        display now
          (if m_total bar = SIZE_MAX \<or> \<not> is_done bar
           then bar\<lparr>m_progress := m_progress bar + 1\<rparr> else bar,
           statics))"

definition update ::
  "time_point \<Rightarrow> ProgressBar \<times> etc_statics option
     \<Rightarrow> fault + (ProgressBar \<times> etc_statics option \<times> rep option)" where
  "update now ps = tick now ps"

text \<open>
  A run of the process: \<^verbatim>\<open>update\<close> is called on one bar at the successive clock
  readings of the list. The estimates handed to the display are collected in order.
\<close>

fun updates ::
  "time_point list \<Rightarrow> ProgressBar \<times> etc_statics option
     \<Rightarrow> fault + (ProgressBar \<times> etc_statics option \<times> rep option list)" where
  "updates [] ps = Inr (fst ps, snd ps, [])"
| "updates (now # nows) ps =
     (case update now ps of
        Inl f \<Rightarrow> Inl f
      | Inr (bar, statics, etc) \<Rightarrow>
          (case updates nows (bar, statics) of
             Inl f \<Rightarrow> Inl f
           | Inr (bar', statics', etcs) \<Rightarrow> Inr (bar', statics', etc # etcs)))"

text \<open>
  A sequence of calls of \<^verbatim>\<open>calculate_etc\<close> made by arbitrary bars at arbitrary clock
  readings, sharing the statics; the returned values are collected in order.
\<close>

fun calculate_etc_calls ::
  "(ProgressBar \<times> time_point) list \<Rightarrow> etc_statics option
     \<Rightarrow> fault + (rep list \<times> etc_statics option)" where
  "calculate_etc_calls [] statics = Inr ([], statics)"
| "calculate_etc_calls (c # cs) statics =
     (case calculate_etc (fst c) (snd c) statics of
        Inl f \<Rightarrow> Inl f
      | Inr (etc, statics') \<Rightarrow>
          (case calculate_etc_calls cs statics' of
             Inl f \<Rightarrow> Inl f
           | Inr (etcs, statics'') \<Rightarrow> Inr (etc # etcs, statics'')))"

text \<open>
  The statics in which no call has counted yet: not initialised, or with the update
  counter at zero.
\<close>

definition etc_cold :: "etc_statics option \<Rightarrow> bool" where
  "etc_cold statics = (case statics of None \<Rightarrow> True | Some st \<Rightarrow> m_update_counter st = 0)"

text \<open>
  The test that sends a call into the warm-up branch, on the statics as they are once
  control has passed their declarations.
\<close>

definition warming_up :: "ProgressBar \<Rightarrow> etc_statics option \<Rightarrow> bool" where
  "warming_up bar statics =
     (let st = (case statics of None \<Rightarrow> init_statics bar | Some s \<Rightarrow> s)
      in m_update_counter st = 0 \<or> size_cb (m_delta_times st) < unat CIRCULAR_BUFFER)"

text \<open>The samples in the window of the statics; none before the statics exist.\<close>

definition delta_samples :: "etc_statics option \<Rightarrow> int list" where
  "delta_samples statics = (case statics of None \<Rightarrow> [] | Some st \<Rightarrow> m_buffer (m_delta_times st))"

text \<open>The calls that get past the first test of \<^verbatim>\<open>calculate_etc\<close>.\<close>

definition passes_guard :: "ProgressBar \<times> time_point \<Rightarrow> bool" where
  "passes_guard c \<longleftrightarrow> m_progress (fst c) \<noteq> 0 \<and> m_total (fst c) \<noteq> 0"

section \<open>The rolling window keeps the last samples\<close>

lemma push_back_ok:
  assumes "1 \<le> m_max_size cb" and "length (m_buffer cb) \<le> m_max_size cb"
  shows "push_back v cb =
           Inr (cb\<lparr>m_buffer := drop (Suc (length (m_buffer cb)) - m_max_size cb) (m_buffer cb @ [v])\<rparr>)"
proof (cases "length (m_buffer cb) = m_max_size cb")
  case True
  with assms obtain front rest where buf: "m_buffer cb = front # rest"
    by (cases "m_buffer cb") auto
  with True show ?thesis
    by (simp add: push_back_def)
next
  case False
  with assms have "Suc (length (m_buffer cb)) - m_max_size cb = 0"
    by simp
  with False show ?thesis
    by (simp add: push_back_def)
qed

lemma push_all_drop:
  assumes "1 \<le> m_max_size cb" and "length (m_buffer cb) \<le> m_max_size cb"
  shows "push_all vs cb =
           Inr (cb\<lparr>m_buffer := drop (length (m_buffer cb) + length vs - m_max_size cb) (m_buffer cb @ vs)\<rparr>)"
  using assms
proof (induction vs arbitrary: cb)
  case Nil
  then show ?case by simp
next
  case (Cons v vs)
  let ?cb' = "cb\<lparr>m_buffer := drop (Suc (length (m_buffer cb)) - m_max_size cb) (m_buffer cb @ [v])\<rparr>"
  have step: "push v cb = Inr ?cb'"
    using Cons.prems by (simp add: push_def push_back_ok)
  have cap: "1 \<le> m_max_size ?cb'" and len: "length (m_buffer ?cb') \<le> m_max_size ?cb'"
    using Cons.prems by auto
  have "push_all (v # vs) cb = push_all vs ?cb'"
    using step by simp
  also have "\<dots> = Inr (?cb'\<lparr>m_buffer :=
      drop (length (m_buffer ?cb') + length vs - m_max_size ?cb') (m_buffer ?cb' @ vs)\<rparr>)"
    by (rule Cons.IH [OF cap len])
  also have "\<dots> = Inr (cb\<lparr>m_buffer :=
      drop (length (m_buffer cb) + length (v # vs) - m_max_size cb) (m_buffer cb @ v # vs)\<rparr>)"
  proof (cases "length (m_buffer cb) = m_max_size cb")
    case True
    then show ?thesis using Cons.prems by (simp add: drop_Suc tl_append split: list.splits)
  next
    case False
    then have "Suc (length (m_buffer cb)) - m_max_size cb = 0"
      using Cons.prems by simp
    then show ?thesis using Cons.prems False by simp
  qed
  finally show ?case .
qed

lemma min_element_from_fold: "min_element_from x xs = fold min xs x"
proof (induction xs arbitrary: x)
  case Nil
  then show ?case by simp
next
  case (Cons y ys)
  have "(if y < x then y else x) = min y x"
    by (auto simp add: min_def)
  then show ?case
    using Cons.IH [of "min y x"] by simp
qed

lemma max_element_from_fold: "max_element_from x xs = fold max xs x"
proof (induction xs arbitrary: x)
  case Nil
  then show ?case by simp
next
  case (Cons y ys)
  have "(if x < y then y else x) = max y x"
    by (auto simp add: max_def)
  then show ?case
    using Cons.IH [of "max y x"] by simp
qed

lemma min_element_from_Min: "min_element_from x xs = Min (set (x # xs))"
  by (simp only: min_element_from_fold Min.set_eq_fold)

lemma max_element_from_Max: "max_element_from x xs = Max (set (x # xs))"
  by (simp only: max_element_from_fold Max.set_eq_fold)

lemma minimum_local_Min:
  "m_buffer cb \<noteq> [] \<Longrightarrow> minimum_local cb = Some (Min (set (m_buffer cb)))"
  by (cases "m_buffer cb") (simp_all add: minimum_local_def min_element_from_Min)

lemma maximum_local_Max:
  "m_buffer cb \<noteq> [] \<Longrightarrow> maximum_local cb = Some (Max (set (m_buffer cb)))"
  by (cases "m_buffer cb") (simp_all add: maximum_local_def max_element_from_Max)


text \<open>
  Claim C4. For a capacity \<open>c \<ge> 1\<close>, pushing \<open>v\<^sub>1 \<dots> v\<^sub>N\<close> into a fresh window never runs
  into a fault and leaves a window of size \<open>min N c\<close>: all the values, in arrival order,
  when \<open>N \<le> c\<close>, and exactly the last \<open>c\<close> of them, \<open>v\<^bsub>N-c+1\<^esub> \<dots> v\<^sub>N\<close>, in arrival
  order when \<open>N > c\<close>. \<^verbatim>\<open>minimum()\<close> and \<^verbatim>\<open>maximum()\<close> are the least and the greatest
  of the retained values only.
\<close>

theorem push_all_fresh_window:
  assumes "1 \<le> c"
  shows "\<exists>cb. push_all vs (CircularBuffer_new c) = Inr cb
           \<and> m_max_size cb = c
           \<and> size_cb cb = min (length vs) c
           \<and> m_buffer cb = drop (length vs - c) vs
           \<and> (length vs \<le> c \<longrightarrow> m_buffer cb = vs)
           \<and> (c < length vs \<longrightarrow> m_buffer cb = map (\<lambda>i. vs ! (length vs - c + i)) [0..<c])
           \<and> (vs \<noteq> [] \<longrightarrow>
                 minimum_local cb = Some (Min (set (drop (length vs - c) vs)))
               \<and> maximum_local cb = Some (Max (set (drop (length vs - c) vs))))"
proof -
  let ?cb = "(CircularBuffer_new c :: 'a CircularBuffer)\<lparr>m_buffer := drop (length vs - c) vs\<rparr>"
  have run: "push_all vs (CircularBuffer_new c) = Inr ?cb"
    using assms push_all_drop [of "CircularBuffer_new c" vs]
    by (simp add: CircularBuffer_new_def)
  have buf: "m_buffer ?cb = drop (length vs - c) vs"
    by simp
  have nth: "drop (length vs - c) vs = map (\<lambda>i. vs ! (length vs - c + i)) [0..<c]"
    if "c < length vs"
    using that by (intro nth_equalityI) auto
  have ne: "m_buffer ?cb \<noteq> []" if "vs \<noteq> []"
  proof -
    from that have "0 < length vs" by simp
    with assms have "length vs - c < length vs" by arith
    then show ?thesis by simp
  qed
  show ?thesis
    using run buf nth minimum_local_Min [OF ne] maximum_local_Max [OF ne]
    by (intro exI [of _ ?cb]) (auto simp add: size_cb_def CircularBuffer_new_def)
qed

theorem push_all_fresh_window_witness:
  "(1::nat) \<le> 3
   \<and> push_all [1, 2, 3, 4 :: int] (CircularBuffer_new 3) = Inr \<lparr>m_max_size = 3, m_buffer = [2, 3, 4]\<rparr>
   \<and> minimum_local \<lparr>m_max_size = 3, m_buffer = [2, 3, 4 :: int]\<rparr> = Some 2
   \<and> maximum_local \<lparr>m_max_size = 3, m_buffer = [2, 3, 4 :: int]\<rparr> = Some 4
   \<and> push_all [1, 2 :: int] (CircularBuffer_new 3) = Inr \<lparr>m_max_size = 3, m_buffer = [1, 2]\<rparr>"
proof -
  have h: "(1::nat) \<le> 3" by simp
  from push_all_fresh_window [OF h, of "[1, 2, 3, 4 :: int]"]
  obtain cb where a: "push_all [1, 2, 3, 4 :: int] (CircularBuffer_new 3) = Inr cb"
    and b: "m_max_size cb = 3" and c: "m_buffer cb = drop (length [1, 2, 3, 4 :: int] - 3) [1, 2, 3, 4]"
    and d: "minimum_local cb = Some (Min (set (drop (length [1, 2, 3, 4 :: int] - 3) [1, 2, 3, 4])))"
    and e: "maximum_local cb = Some (Max (set (drop (length [1, 2, 3, 4 :: int] - 3) [1, 2, 3, 4])))"
    by auto
  have cb: "cb = \<lparr>m_max_size = 3, m_buffer = [2, 3, 4]\<rparr>"
    using b c by (cases cb) simp
  from push_all_fresh_window [OF h, of "[1, 2 :: int]"]
  obtain cb2 where a2: "push_all [1, 2 :: int] (CircularBuffer_new 3) = Inr cb2"
    and b2: "m_max_size cb2 = 3" and c2: "m_buffer cb2 = drop (length [1, 2 :: int] - 3) [1, 2]"
    by auto
  have cb2: "cb2 = \<lparr>m_max_size = 3, m_buffer = [1, 2]\<rparr>"
    using b2 c2 by (cases cb2) simp
  show ?thesis
    using h a d e a2 unfolding cb cb2 by simp
qed

section \<open>The progress counter\<close>

lemma calculate_etc_cold:
  assumes "etc_cold statics"
  shows "calculate_etc bar now statics =
           (if m_progress bar = 0 \<or> m_total bar = 0 then Inr (UNAVAILABLE, statics)
            else Inr (overall_etc bar now,
                      Some ((case statics of None \<Rightarrow> init_statics bar | Some s \<Rightarrow> s)
                              \<lparr>m_last_tick_time := now,
                               m_last_etc := double_of_size_t (overall_etc bar now)\<rparr>)))"
  using assms
  by (cases statics) (simp_all add: calculate_etc_def etc_cold_def init_statics_def Let_def)

lemma calculate_etc_cold_stays:
  assumes "etc_cold statics"
  shows "\<exists>etc statics'. calculate_etc bar now statics = Inr (etc, statics') \<and> etc_cold statics'"
  using assms
  by (cases statics) (auto simp add: calculate_etc_cold etc_cold_def init_statics_def)

lemma word_less_Suc:
  fixes p :: "64 word"
  assumes "p < n"
  shows "unat (p + 1) = Suc (unat p)"
proof -
  have "unat p < unat n"
    using assms by (simp add: word_less_nat_alt)
  moreover have "unat n < 2 ^ 64"
    using unsigned_less [of n] by simp
  ultimately have "unat p + 1 < 2 ^ LENGTH(64)"
    by simp
  then have "unat (p + 1) = unat p + unat (1 :: 64 word)"
    by (simp only: unat_add_lem [THEN iffD1] unat_1)
  then show ?thesis
    by simp
qed

lemma clamp_below:
  "v \<le> hi \<Longrightarrow> clamp v 0 hi = v"
  by (simp add: clamp_def word_less_nat_alt word_le_nat_alt)

lemma tick_bounded:
  assumes bounded: "m_total bar \<noteq> 0" "m_total bar \<noteq> SIZE_MAX"
    and inv: "m_progress bar \<le> m_total bar"
    and cold: "etc_cold statics"
  shows "\<exists>statics' etc.
           tick now (bar, statics) =
             Inr (bar\<lparr>m_progress :=
                        (if m_progress bar < m_total bar then m_progress bar + 1
                         else m_progress bar)\<rparr>,
                  statics', Some etc)
           \<and> etc_cold statics'"
proof -
  let ?p = "if m_progress bar < m_total bar then m_progress bar + 1 else m_progress bar"
  let ?bar1 = "bar\<lparr>m_progress := ?p\<rparr>"
  have le: "?p \<le> m_total bar"
    using inv by (simp add: inc_le)
  then have clamp: "clamp ?p 0 (m_total bar) = ?p"
    by (rule clamp_below)
  have step: "(if m_total bar = SIZE_MAX \<or> \<not> is_done bar
               then bar\<lparr>m_progress := m_progress bar + 1\<rparr> else bar) = ?bar1"
    using bounded by (simp add: is_done_def not_le)
  obtain etc statics' where
    etc: "calculate_etc ?bar1 now statics = Inr (etc, statics')" and cold': "etc_cold statics'"
    using calculate_etc_cold_stays [OF cold] by blast
  have "display now (?bar1, statics) = Inr (?bar1, statics', Some etc)"
    using bounded etc clamp by (simp add: display_def)
  then have "tick now (bar, statics) = Inr (?bar1, statics', Some etc)"
    by (simp only: tick_def prod.case step)
  with cold' show ?thesis
    by blast
qed


lemma updates_bounded:
  assumes "m_total bar \<noteq> 0" "m_total bar \<noteq> SIZE_MAX"
    and "m_progress bar \<le> m_total bar"
    and "etc_cold statics"
  shows "\<exists>bar' statics' etcs.
           updates nows (bar, statics) = Inr (bar', statics', etcs)
           \<and> m_total bar' = m_total bar
           \<and> m_start_time bar' = m_start_time bar
           \<and> unat (m_progress bar') = min (unat (m_progress bar) + length nows) (unat (m_total bar))
           \<and> etc_cold statics'
           \<and> length etcs = length nows"
  using assms
proof (induction nows arbitrary: bar statics)
  case Nil
  then show ?case
    by (simp add: word_le_nat_alt)
next
  case (Cons now nows)
  let ?p = "if m_progress bar < m_total bar then m_progress bar + 1 else m_progress bar"
  let ?bar1 = "bar\<lparr>m_progress := ?p\<rparr>"
  obtain statics1 etc where
    step: "tick now (bar, statics) = Inr (?bar1, statics1, Some etc)" and cold1: "etc_cold statics1"
    using tick_bounded [OF Cons.prems] by blast
  have inv1: "m_progress ?bar1 \<le> m_total ?bar1"
    using Cons.prems(3) by (simp add: inc_le)
  have tot1: "m_total ?bar1 \<noteq> 0" "m_total ?bar1 \<noteq> SIZE_MAX"
    using Cons.prems by simp_all
  obtain bar' statics' etcs where
    run: "updates nows (?bar1, statics1) = Inr (bar', statics', etcs)"
    and tot: "m_total bar' = m_total ?bar1"
    and start: "m_start_time bar' = m_start_time ?bar1"
    and prog: "unat (m_progress bar') = min (unat (m_progress ?bar1) + length nows) (unat (m_total ?bar1))"
    and cold': "etc_cold statics'"
    and len: "length etcs = length nows"
    using Cons.IH [OF tot1 inv1 cold1] by blast
  have all: "updates (now # nows) (bar, statics) = Inr (bar', statics', Some etc # etcs)"
    using step run by (simp add: update_def)
  have count: "min (unat ?p + length nows) (unat (m_total bar))
                 = min (unat (m_progress bar) + length (now # nows)) (unat (m_total bar))"
  proof (cases "m_progress bar < m_total bar")
    case True
    then show ?thesis
      by (simp add: word_less_Suc)
  next
    case False
    with Cons.prems(3) have "m_progress bar = m_total bar"
      by simp
    then show ?thesis
      by simp
  qed
  show ?case
    using all tot start prog cold' len count by simp
qed

text \<open>
  Claim C5. A bar constructed with \<open>0 < total < SIZE_MAX\<close> and updated at any clock
  readings, in a process whose estimator has not counted yet, never faults; after \<open>k\<close>
  updates its progress is \<open>min k total\<close>. Hence \<open>progress \<le> total\<close> holds initially and
  after every update, \<^verbatim>\<open>done()\<close> is true exactly when \<open>progress \<ge> total\<close>, that is false
  before the \<open>total\<close>-th update and true from then on, and once it is true a further
  update leaves the bar as it is.
\<close>

theorem progress_bounded_and_done:
  assumes "0 < n" and "n < SIZE_MAX" and "etc_cold statics"
  shows "\<exists>bar statics' etcs.
           updates nows (ProgressBar_new n start, statics) = Inr (bar, statics', etcs)
           \<and> m_total bar = n
           \<and> m_progress bar \<le> m_total bar
           \<and> unat (m_progress bar) = min (length nows) (unat n)
           \<and> (done_bar bar \<longleftrightarrow> m_progress bar \<ge> m_total bar)
           \<and> (done_bar bar \<longleftrightarrow> unat n \<le> length nows)
           \<and> (done_bar bar \<longrightarrow>
                 (\<forall>now. \<exists>statics'' etc. update now (bar, statics') = Inr (bar, statics'', etc)))"
proof -
  let ?bar0 = "ProgressBar_new n start"
  have tot0: "m_total ?bar0 \<noteq> 0" "m_total ?bar0 \<noteq> SIZE_MAX"
    and inv0: "m_progress ?bar0 \<le> m_total ?bar0"
    using assms(1,2) by (simp_all add: ProgressBar_new_def)
  obtain bar statics' etcs where
    run: "updates nows (?bar0, statics) = Inr (bar, statics', etcs)"
    and tot: "m_total bar = m_total ?bar0"
    and prog: "unat (m_progress bar) = min (unat (m_progress ?bar0) + length nows) (unat (m_total ?bar0))"
    and cold': "etc_cold statics'"
    using updates_bounded [OF tot0 inv0 assms(3)] by blast
  have tot': "m_total bar = n"
    using tot by (simp add: ProgressBar_new_def)
  have prog': "unat (m_progress bar) = min (length nows) (unat n)"
    using prog by (simp add: ProgressBar_new_def)
  then have inv: "m_progress bar \<le> m_total bar"
    by (simp add: tot' word_le_nat_alt)
  have done_iff: "done_bar bar \<longleftrightarrow> unat n \<le> length nows"
    using prog' by (auto simp add: done_bar_def is_done_def tot' word_le_nat_alt)
  have stay: "\<exists>statics'' etc. update now (bar, statics') = Inr (bar, statics'', etc)"
    if "done_bar bar" for now
  proof -
    from that inv have eq: "\<not> m_progress bar < m_total bar"
      by (simp add: done_bar_def is_done_def)
    have b: "m_total bar \<noteq> 0" "m_total bar \<noteq> SIZE_MAX"
      using assms(1,2) tot' by simp_all
    from tick_bounded [OF b inv cold', of now] eq show ?thesis
      by (auto simp add: update_def)
  qed
  show ?thesis
    using run tot' inv prog' done_iff stay
    by (intro exI [of _ bar] exI [of _ statics'] exI [of _ etcs]) (simp add: done_bar_def is_done_def)
qed


theorem progress_bounded_and_done_witness:
  "(0 :: size_t) < 3 \<and> (3 :: size_t) < SIZE_MAX \<and> etc_cold None
   \<and> (\<exists>bar statics etcs.
         updates [1000000, 2000000] (ProgressBar_new 3 0, None) = Inr (bar, statics, etcs)
         \<and> m_progress bar = 2 \<and> \<not> done_bar bar)
   \<and> (\<exists>bar statics etcs.
         updates [1000000, 2000000, 3000000, 4000000] (ProgressBar_new 3 0, None)
           = Inr (bar, statics, etcs)
         \<and> m_progress bar = 3 \<and> done_bar bar)"
proof -
  have h1: "(0 :: size_t) < 3" by simp
  have h2: "(3 :: size_t) < SIZE_MAX" by (simp add: SIZE_MAX_def)
  have h3: "etc_cold None" by (simp add: etc_cold_def)
  have u: "unat w = k \<Longrightarrow> w = of_nat k" for w :: size_t and k
    by auto
  from progress_bounded_and_done [OF h1 h2 h3, of "[1000000, 2000000]" 0]
  have a: "\<exists>bar statics etcs.
         updates [1000000, 2000000] (ProgressBar_new 3 0, None) = Inr (bar, statics, etcs)
         \<and> m_progress bar = 2 \<and> \<not> done_bar bar"
    by (auto dest!: u)
  from progress_bounded_and_done [OF h1 h2 h3, of "[1000000, 2000000, 3000000, 4000000]" 0]
  have b: "\<exists>bar statics etcs.
         updates [1000000, 2000000, 3000000, 4000000] (ProgressBar_new 3 0, None)
           = Inr (bar, statics, etcs)
         \<and> m_progress bar = 3 \<and> done_bar bar"
    by (auto dest!: u)
  show ?thesis
    using h1 h2 h3 a b by blast
qed

section \<open>The warm-up branch of calculate_etc\<close>

lemma calculate_etc_warming_up:
  assumes "m_progress bar \<noteq> 0" and "m_total bar \<noteq> 0" and "warming_up bar statics"
  shows "calculate_etc bar now statics =
           Inr (overall_etc bar now,
                Some ((case statics of None \<Rightarrow> init_statics bar | Some s \<Rightarrow> s)
                        \<lparr>m_last_tick_time := now,
                         m_last_etc := double_of_size_t (overall_etc bar now)\<rparr>))"
  using assms by (simp add: calculate_etc_def warming_up_def Let_def)

lemma duration_cast_ms_nonneg:
  "0 \<le> d \<Longrightarrow> duration_cast_ms d = d div 1000000"
  by (cases "d = 0") (simp_all add: duration_cast_ms_def)

lemma overall_etc_exact:
  assumes start: "m_start_time bar \<le> now"
    and inv: "m_progress bar \<le> m_total bar"
    and small: "nat ((now - m_start_time bar) div 1000000)
                  * (unat (m_total bar) - unat (m_progress bar)) < 2 ^ 64"
  shows "unat (overall_etc bar now) =
           nat ((now - m_start_time bar) div 1000000)
             * (unat (m_total bar) - unat (m_progress bar)) div unat (m_progress bar)"
proof (cases "m_progress bar = m_total bar")
  case True
  then show ?thesis
    by (simp add: overall_etc_def)
next
  case False
  let ?e = "(now - m_start_time bar) div 1000000"
  let ?r = "unat (m_total bar) - unat (m_progress bar)"
  have e0: "0 \<le> ?e"
    using start by simp
  have r: "unat (m_total bar - m_progress bar) = ?r"
    using inv by (simp add: unat_sub)
  have "m_progress bar < m_total bar"
    using False inv by simp
  then have r1: "1 \<le> ?r"
    by (simp add: word_less_nat_alt)
  have "nat ?e \<le> nat ?e * ?r"
    using mult_le_mono2 [OF r1, of "nat ?e"] by simp
  then have e_small: "nat ?e < 2 ^ 64"
    using small by (rule le_less_trans)
  have e: "unat (word_of_int ?e :: size_t) = nat ?e"
  proof -
    have "(word_of_int ?e :: size_t) = of_nat (nat ?e)"
      using e0 by simp
    also have "unat \<dots> = nat ?e"
      using e_small by (simp add: unat_of_nat)
    finally show ?thesis .
  qed
  have "unat (word_of_int ?e * (m_total bar - m_progress bar)) = nat ?e * ?r"
    using small e r by (simp add: unat_mult_lem [THEN iffD1])
  then show ?thesis
    using start by (simp add: overall_etc_def duration_cast_ms_nonneg unat_div)
qed

lemma sint_of_small:
  fixes w :: "64 word"
  assumes "unat w < 2 ^ 63"
  shows "sint w = int (unat w)"
proof -
  have "uint w < 2 ^ 63"
    using assms nat_int_comparison(2) by force
  moreover have "- (2 ^ 63) \<le> uint w"
  proof -
    have "- (2 ^ 63) \<le> (0 :: int)"
      by simp
    then show ?thesis
      using uint_ge_0 [of w] by (rule order_trans)
  qed
  ultimately have "signed_take_bit 63 (uint w) = uint w"
    by (intro signed_take_bit_int_eq_self) simp_all
  then have "sint w = uint w"
    by (simp add: sint_uint)
  then show ?thesis
    by simp
qed

lemma unat_word_of_int_64:
  "unat (word_of_int k :: 64 word) = nat (k mod 2 ^ 64)"
proof -
  have "uint (word_of_int k :: 64 word) = k mod 2 ^ 64"
    by (simp only: uint_word_of_int) simp
  then show ?thesis
    by (metis unat_eq_nat_uint)
qed

lemma overall_etc_wraps:
  "unat (overall_etc bar now) =
     (nat (duration_cast_ms (now - m_start_time bar) mod 2 ^ 64)
        * unat (m_total bar - m_progress bar)) mod 2 ^ 64 div unat (m_progress bar)"
proof -
  let ?e = "word_of_int (duration_cast_ms (now - m_start_time bar)) :: size_t"
  let ?r = "m_total bar - m_progress bar"
  have "unat (?e * ?r) = unat ?e * unat ?r mod 2 ^ LENGTH(64)"
    by (rule unat_word_ariths)
  then have "unat (?e * ?r)
               = nat (duration_cast_ms (now - m_start_time bar) mod 2 ^ 64) * unat ?r mod 2 ^ 64"
    by (simp only: unat_word_of_int_64) simp
  moreover have "unat (?e * ?r div m_progress bar) = unat (?e * ?r) div unat (m_progress bar)"
    by (rule unat_div)
  ultimately show ?thesis
    by (simp only: overall_etc_def)
qed

lemma overall_etc_signed_exact:
  assumes "m_start_time bar \<le> now" and "m_progress bar \<le> m_total bar"
    and "nat ((now - m_start_time bar) div 1000000)
           * (unat (m_total bar) - unat (m_progress bar)) < 2 ^ 64"
    and "nat ((now - m_start_time bar) div 1000000)
           * (unat (m_total bar) - unat (m_progress bar)) div unat (m_progress bar) < 2 ^ 63"
  shows "sint (overall_etc bar now) =
           int (nat ((now - m_start_time bar) div 1000000)
                  * (unat (m_total bar) - unat (m_progress bar)) div unat (m_progress bar))"
proof -
  have exact: "unat (overall_etc bar now) =
      nat ((now - m_start_time bar) div 1000000)
        * (unat (m_total bar) - unat (m_progress bar)) div unat (m_progress bar)"
    using assms(1-3) by (rule overall_etc_exact)
  with assms(4) have "unat (overall_etc bar now) < 2 ^ 63"
    by (simp only:)
  then have "sint (overall_etc bar now) = int (unat (overall_etc bar now))"
    by (rule sint_of_small)
  with exact show ?thesis
    by (simp only:)
qed

text \<open>
  Claim C2, as amended. Every call with \<open>progress \<noteq> 0\<close> and \<open>total \<noteq> 0\<close> that is made
  while the update counter is zero or the window holds fewer than \<^verbatim>\<open>CIRCULAR_BUFFER\<close>
  samples returns \<^verbatim>\<open>overall_etc\<close>, records it, converted to double, as \<^verbatim>\<open>m_last_etc\<close>,
  sets \<^verbatim>\<open>m_last_tick_time\<close> to \<open>now\<close>, and leaves the counter and the window as they
  were. \<^verbatim>\<open>overall_etc\<close> is \<open>elapsed * (total - progress) / progress\<close> in unsigned 64-bit
  integers: the product is taken modulo \<open>2\<^sup>6\<^sup>4\<close> and the quotient is truncated. The
  caller reads the result as a signed number: when the clock has not gone back,
  \<open>progress \<le> total\<close>, the product is below \<open>2\<^sup>6\<^sup>4\<close> and the quotient below \<open>2\<^sup>6\<^sup>3\<close>, the
  signed value returned is the truncated integer quotient.
\<close>

theorem calculate_etc_warm_up_integer:
  assumes "m_progress bar \<noteq> 0" and "m_total bar \<noteq> 0"
    and "warming_up bar statics"
  shows "\<exists>st.
           calculate_etc bar now statics = Inr (overall_etc bar now, Some st)
           \<and> m_last_etc st = real (unat (overall_etc bar now))
           \<and> m_last_tick_time st = now
           \<and> m_update_counter st =
                 m_update_counter (case statics of None \<Rightarrow> init_statics bar | Some s \<Rightarrow> s)
           \<and> m_delta_times st =
                 m_delta_times (case statics of None \<Rightarrow> init_statics bar | Some s \<Rightarrow> s)
           \<and> unat (overall_etc bar now) =
                 (nat (duration_cast_ms (now - m_start_time bar) mod 2 ^ 64)
                    * unat (m_total bar - m_progress bar)) mod 2 ^ 64 div unat (m_progress bar)
           \<and> (m_start_time bar \<le> now \<and> m_progress bar \<le> m_total bar
                \<and> nat ((now - m_start_time bar) div 1000000)
                      * (unat (m_total bar) - unat (m_progress bar)) < 2 ^ 64
                \<and> nat ((now - m_start_time bar) div 1000000)
                      * (unat (m_total bar) - unat (m_progress bar)) div unat (m_progress bar)
                    < 2 ^ 63
                \<longrightarrow> sint (overall_etc bar now) =
                      int (nat ((now - m_start_time bar) div 1000000)
                             * (unat (m_total bar) - unat (m_progress bar))
                           div unat (m_progress bar)))"
proof -
  let ?st0 = "case statics of None \<Rightarrow> init_statics bar | Some s \<Rightarrow> s"
  let ?st = "?st0\<lparr>m_last_tick_time := now, m_last_etc := double_of_size_t (overall_etc bar now)\<rparr>"
  have run: "calculate_etc bar now statics = Inr (overall_etc bar now, Some ?st)"
    using assms by (rule calculate_etc_warming_up)
  have cache: "m_last_etc ?st = real (unat (overall_etc bar now))"
    by (simp add: double_of_size_t_def)
  show ?thesis
    by (intro exI conjI impI, rule run, rule cache, simp, simp, simp, rule overall_etc_wraps)
       (elim conjE, rule overall_etc_signed_exact)
qed

theorem calculate_etc_warm_up_integer_witness:
  "m_progress \<lparr>m_total = 10, m_progress = 3, m_start_time = 0\<rparr> \<noteq> 0
   \<and> m_total \<lparr>m_total = 10, m_progress = 3, m_start_time = 0\<rparr> \<noteq> 0
   \<and> warming_up \<lparr>m_total = 10, m_progress = 3, m_start_time = 0\<rparr> None
   \<and> (\<exists>st. calculate_etc \<lparr>m_total = 10, m_progress = 3, m_start_time = 0\<rparr> 10000000 None
                = Inr (overall_etc \<lparr>m_total = 10, m_progress = 3, m_start_time = 0\<rparr> 10000000,
                       Some st)
            \<and> m_last_tick_time st = 10000000)
   \<and> sint (overall_etc \<lparr>m_total = 10, m_progress = 3, m_start_time = 0\<rparr> 10000000) = 23"
proof -
  let ?bar = "\<lparr>m_total = 10, m_progress = 3, m_start_time = 0\<rparr>"
  have h1: "m_progress ?bar \<noteq> 0" and h2: "m_total ?bar \<noteq> 0"
    by simp_all
  have h3: "warming_up ?bar None"
    by (simp add: warming_up_def init_statics_def)
  from calculate_etc_warm_up_integer [OF h1 h2 h3, of 10000000]
  obtain st where
    run: "calculate_etc ?bar 10000000 None = Inr (overall_etc ?bar 10000000, Some st)"
    and tick: "m_last_tick_time st = 10000000"
    and signed: "m_start_time ?bar \<le> 10000000 \<and> m_progress ?bar \<le> m_total ?bar
        \<and> nat ((10000000 - m_start_time ?bar) div 1000000)
              * (unat (m_total ?bar) - unat (m_progress ?bar)) < 2 ^ 64
        \<and> nat ((10000000 - m_start_time ?bar) div 1000000)
              * (unat (m_total ?bar) - unat (m_progress ?bar)) div unat (m_progress ?bar) < 2 ^ 63
        \<longrightarrow> sint (overall_etc ?bar 10000000) =
              int (nat ((10000000 - m_start_time ?bar) div 1000000)
                     * (unat (m_total ?bar) - unat (m_progress ?bar))
                   div unat (m_progress ?bar))"
    by blast
  have "sint (overall_etc ?bar 10000000) = 23"
    using signed by simp
  with h1 h2 h3 run tick show ?thesis
    by blast
qed

text \<open>
  The estimate is not computed in double precision: after 10 ms with 3 of 10 units done
  the call returns 23, and \<open>10 * 7 / 3\<close> is not 23.
\<close>

theorem calculate_etc_not_double_precision:
  "calculate_etc \<lparr>m_total = 10, m_progress = 3, m_start_time = 0\<rparr> 10000000 None
     = Inr (23,
            Some \<lparr>m_delta_times = \<lparr>m_max_size = 5, m_buffer = []\<rparr>,
                  m_last_etc = 23, m_update_counter = 0, m_last_tick_time = 10000000\<rparr>)
   \<and> real_of_int (duration_cast_ms (10000000 - 0)) * (10 - 3) / 3 \<noteq> real_of_int (sint (23 :: rep))"
  by (simp add: calculate_etc_def init_statics_def etc_capacity_def CIRCULAR_BUFFER_def
      CircularBuffer_new_def size_cb_def overall_etc_def duration_cast_ms_def double_of_size_t_def)

text \<open>
  Without the bound on the quotient the value returned is negative: with one of
  \<open>10\<^sup>1\<^sup>3\<close> units done after 1000 s the quotient is above \<open>2\<^sup>6\<^sup>3\<close>.
\<close>

lemma calculate_etc_negative_estimate:
  "calculate_etc \<lparr>m_total = 10000000000000, m_progress = 1, m_start_time = 0\<rparr>
     1000000000000 None
   = Inr (overall_etc \<lparr>m_total = 10000000000000, m_progress = 1, m_start_time = 0\<rparr>
            1000000000000,
          Some \<lparr>m_delta_times = \<lparr>m_max_size = 10, m_buffer = []\<rparr>,
                m_last_etc = 9999999999999000000, m_update_counter = 0,
                m_last_tick_time = 1000000000000\<rparr>)
   \<and> sint (overall_etc \<lparr>m_total = 10000000000000, m_progress = 1, m_start_time = 0\<rparr>
              1000000000000) = - 8446744073710551616"
  by (simp add: calculate_etc_def init_statics_def etc_capacity_def CIRCULAR_BUFFER_def
      CircularBuffer_new_def size_cb_def overall_etc_def duration_cast_ms_def double_of_size_t_def
      word_le_nat_alt word_less_nat_alt)

section \<open>When no estimate is available\<close>

lemma calculate_etc_guard:
  "m_progress bar = 0 \<or> m_total bar = 0
     \<Longrightarrow> calculate_etc bar now statics = Inr (UNAVAILABLE, statics)"
  by (simp add: calculate_etc_def)

lemma display_guards_etc:
  assumes "etc_cold statics"
  shows "\<exists>bar' statics' etc.
           display now (bar, statics) = Inr (bar', statics', etc)
           \<and> (etc = None \<longleftrightarrow> m_total bar = 0 \<or> m_total bar = SIZE_MAX)
           \<and> (etc = None \<longrightarrow> bar' = bar \<and> statics' = statics)"
proof (cases "m_total bar \<noteq> 0 \<and> m_total bar \<noteq> SIZE_MAX")
  case True
  let ?bar' = "bar\<lparr>m_progress := clamp (m_progress bar) 0 (m_total bar)\<rparr>"
  obtain etc statics' where "calculate_etc ?bar' now statics = Inr (etc, statics')"
    using calculate_etc_cold_stays [OF assms] by blast
  with True have "display now (bar, statics) = Inr (?bar', statics', Some etc)"
    by (simp add: display_def)
  with True show ?thesis
    by auto
next
  case False
  then have "display now (bar, statics) = Inr (bar, statics, None)"
    by (auto simp add: display_def)
  with False show ?thesis
    by auto
qed

lemma updates_indefinite:
  assumes "m_total bar = SIZE_MAX"
  shows "updates nows (bar, statics) =
           Inr (bar\<lparr>m_progress := m_progress bar + of_nat (length nows)\<rparr>, statics,
                replicate (length nows) None)"
  using assms
proof (induction nows arbitrary: bar)
  case Nil
  then show ?case by simp
next
  case (Cons now nows)
  let ?bar1 = "bar\<lparr>m_progress := m_progress bar + 1\<rparr>"
  have step: "update now (bar, statics) = Inr (?bar1, statics, None)"
    using Cons.prems by (simp add: update_def tick_def display_def)
  have "m_total ?bar1 = SIZE_MAX"
    using Cons.prems by simp
  from Cons.IH [OF this] step show ?case
    by (simp add: add.assoc add.commute)
qed

text \<open>
  Claim C3, as amended. \<^verbatim>\<open>calculate_etc\<close> returns the sentinel, and touches nothing,
  whenever \<open>progress = 0\<close> or \<open>total = 0\<close>, whatever the other is. It has no test for the
  unbounded total: the test is in \<^verbatim>\<open>display\<close>, which hands an estimate to the output
  exactly when the total is neither zero nor \<^verbatim>\<open>SIZE_MAX\<close> and otherwise leaves the bar
  and the statics alone, so that a bar without a total never gets an estimate however
  often it is updated. In a process whose estimator has not counted yet, no call
  runs into a fault.
\<close>

theorem calculate_etc_unavailable:
  assumes "etc_cold statics"
  shows "(m_progress bar = 0 \<or> m_total bar = 0
            \<longrightarrow> calculate_etc bar now statics = Inr (UNAVAILABLE, statics))
         \<and> (\<exists>etc statics'. calculate_etc bar now statics = Inr (etc, statics'))
         \<and> (\<exists>bar' statics' etc.
               display now (bar, statics) = Inr (bar', statics', etc)
               \<and> (etc = None \<longleftrightarrow> m_total bar = 0 \<or> m_total bar = SIZE_MAX)
               \<and> (etc = None \<longrightarrow> bar' = bar \<and> statics' = statics))
         \<and> (m_total bar = SIZE_MAX
               \<longrightarrow> (\<exists>bar'. updates nows (bar, statics)
                              = Inr (bar', statics, replicate (length nows) None)))"
proof (intro conjI impI)
  show "calculate_etc bar now statics = Inr (UNAVAILABLE, statics)"
    if "m_progress bar = 0 \<or> m_total bar = 0"
    using that by (rule calculate_etc_guard)
  show "\<exists>etc statics'. calculate_etc bar now statics = Inr (etc, statics')"
    using calculate_etc_cold_stays [OF assms] by blast
  show "\<exists>bar' statics' etc.
          display now (bar, statics) = Inr (bar', statics', etc)
          \<and> (etc = None \<longleftrightarrow> m_total bar = 0 \<or> m_total bar = SIZE_MAX)
          \<and> (etc = None \<longrightarrow> bar' = bar \<and> statics' = statics)"
    using assms by (rule display_guards_etc)
  show "\<exists>bar'. updates nows (bar, statics) = Inr (bar', statics, replicate (length nows) None)"
    if "m_total bar = SIZE_MAX"
    using updates_indefinite [OF that] by blast
qed

theorem calculate_etc_unavailable_witness:
  "etc_cold None
   \<and> calculate_etc \<lparr>m_total = 5, m_progress = 0, m_start_time = 0\<rparr> 1000000 None
       = Inr (UNAVAILABLE, None)
   \<and> calculate_etc \<lparr>m_total = 0, m_progress = 4, m_start_time = 0\<rparr> 1000000 None
       = Inr (UNAVAILABLE, None)
   \<and> (\<exists>bar'. updates [1000000, 2000000] (ProgressBar_indefinite 0, None)
                = Inr (bar', None, [None, None]))"
proof -
  have h: "etc_cold None"
    by (simp add: etc_cold_def)
  have a: "calculate_etc \<lparr>m_total = 5, m_progress = 0, m_start_time = 0\<rparr> 1000000 None
             = Inr (UNAVAILABLE, None)"
    using calculate_etc_unavailable
            [OF h, of "\<lparr>m_total = 5, m_progress = 0, m_start_time = 0\<rparr>" 1000000 "[]"]
    by simp
  have b: "calculate_etc \<lparr>m_total = 0, m_progress = 4, m_start_time = 0\<rparr> 1000000 None
             = Inr (UNAVAILABLE, None)"
    using calculate_etc_unavailable
            [OF h, of "\<lparr>m_total = 0, m_progress = 4, m_start_time = 0\<rparr>" 1000000 "[]"]
    by simp
  have c: "\<exists>bar'. updates [1000000, 2000000] (ProgressBar_indefinite 0, None)
                = Inr (bar', None, [None, None])"
    using calculate_etc_unavailable
            [OF h, of "ProgressBar_indefinite 0" 0 "[1000000, 2000000]"]
    by (simp add: ProgressBar_indefinite_def)
  from h a b c show ?thesis
    by blast
qed

text \<open>
  Called on a bar without a total, one unit done after 1 ms, \<^verbatim>\<open>calculate_etc\<close> returns
  the wrapped product \<open>2\<^sup>6\<^sup>4 - 2\<close>, which is \<open>-2\<close> as a \<^verbatim>\<open>rep\<close>, and not the sentinel.
\<close>

theorem calculate_etc_ignores_unbounded_sentinel:
  "calculate_etc \<lparr>m_total = SIZE_MAX, m_progress = 1, m_start_time = 0\<rparr> 1000000 None
     = Inr (0xFFFFFFFFFFFFFFFE,
            Some \<lparr>m_delta_times = \<lparr>m_max_size = 10, m_buffer = []\<rparr>,
                  m_last_etc = 18446744073709551614, m_update_counter = 0,
                  m_last_tick_time = 1000000\<rparr>)
   \<and> (0xFFFFFFFFFFFFFFFE :: rep) \<noteq> UNAVAILABLE"
  by (simp add: calculate_etc_def init_statics_def etc_capacity_def CIRCULAR_BUFFER_def
      CircularBuffer_new_def size_cb_def overall_etc_def duration_cast_ms_def double_of_size_t_def
      SIZE_MAX_def UNAVAILABLE_def)

text \<open>
  A returned sentinel does not tell that the first test fired: an estimate can have the
  same value. With one of 60247241210 units done after 153092023 ms the extrapolation
  is \<open>2\<^sup>6\<^sup>3 - 1\<close> ms.
\<close>

lemma estimate_equal_to_sentinel:
  "calculate_etc \<lparr>m_total = 60247241210, m_progress = 1, m_start_time = 0\<rparr>
     153092023000000 None
   = Inr (UNAVAILABLE,
          Some \<lparr>m_delta_times = \<lparr>m_max_size = 10, m_buffer = []\<rparr>,
                m_last_etc = 9223372036854775807, m_update_counter = 0,
                m_last_tick_time = 153092023000000\<rparr>)"
  by (simp add: calculate_etc_def init_statics_def etc_capacity_def CIRCULAR_BUFFER_def
      CircularBuffer_new_def size_cb_def overall_etc_def duration_cast_ms_def double_of_size_t_def
      UNAVAILABLE_def word_le_nat_alt word_less_nat_alt)

section \<open>The blend update is never reached\<close>

lemma calculate_etc_cold_samples:
  assumes "etc_cold statics"
  shows "\<exists>statics'.
           calculate_etc bar now statics =
             Inr (if m_progress bar = 0 \<or> m_total bar = 0 then UNAVAILABLE
                  else overall_etc bar now, statics')
           \<and> etc_cold statics'
           \<and> delta_samples statics' = delta_samples statics"
  using assms
  by (cases statics)
     (auto simp add: calculate_etc_cold etc_cold_def delta_samples_def init_statics_def
        CircularBuffer_new_def)

lemma calculate_etc_calls_cold:
  assumes "etc_cold statics"
  shows "\<exists>statics'.
           calculate_etc_calls cs statics =
             Inr (map (\<lambda>c. if m_progress (fst c) = 0 \<or> m_total (fst c) = 0 then UNAVAILABLE
                            else overall_etc (fst c) (snd c)) cs,
                  statics')
           \<and> etc_cold statics'
           \<and> delta_samples statics' = delta_samples statics"
  using assms
proof (induction cs arbitrary: statics)
  case Nil
  then show ?case by simp
next
  case (Cons c cs)
  obtain statics1 where
    step: "calculate_etc (fst c) (snd c) statics =
             Inr (if m_progress (fst c) = 0 \<or> m_total (fst c) = 0 then UNAVAILABLE
                  else overall_etc (fst c) (snd c), statics1)"
    and cold1: "etc_cold statics1"
    and same1: "delta_samples statics1 = delta_samples statics"
    using calculate_etc_cold_samples [OF Cons.prems] by blast
  obtain statics' where
    rest: "calculate_etc_calls cs statics1 =
             Inr (map (\<lambda>c. if m_progress (fst c) = 0 \<or> m_total (fst c) = 0 then UNAVAILABLE
                            else overall_etc (fst c) (snd c)) cs,
                  statics')"
    and cold': "etc_cold statics'"
    and same': "delta_samples statics' = delta_samples statics1"
    using Cons.IH [OF cold1] by blast
  show ?case
    using step rest cold' same' same1 by simp
qed

lemma update_cold:
  assumes "etc_cold statics"
  shows "\<exists>bar' statics' etc.
           update now (bar, statics) = Inr (bar', statics', etc)
           \<and> etc_cold statics'
           \<and> delta_samples statics' = delta_samples statics"
proof -
  let ?bar1 = "if m_total bar = SIZE_MAX \<or> \<not> is_done bar
               then bar\<lparr>m_progress := m_progress bar + 1\<rparr> else bar"
  let ?bar2 = "?bar1\<lparr>m_progress := clamp (m_progress ?bar1) 0 (m_total ?bar1)\<rparr>"
  show ?thesis
  proof (cases "m_total ?bar1 \<noteq> 0 \<and> m_total ?bar1 \<noteq> SIZE_MAX")
    case True
    obtain statics' etc where
      "calculate_etc ?bar2 now statics = Inr (etc, statics')"
      and "etc_cold statics'" and "delta_samples statics' = delta_samples statics"
      using calculate_etc_cold_samples [OF assms, of ?bar2 now] by blast
    with True show ?thesis
      by (auto simp add: update_def tick_def display_def Let_def)
  next
    case False
    with assms show ?thesis
      by (auto simp add: update_def tick_def display_def)
  qed
qed

lemma updates_cold:
  assumes "etc_cold statics"
  shows "\<exists>bar' statics' etcs.
           updates nows (bar, statics) = Inr (bar', statics', etcs)
           \<and> etc_cold statics'
           \<and> delta_samples statics' = delta_samples statics"
  using assms
proof (induction nows arbitrary: bar statics)
  case Nil
  then show ?case by simp
next
  case (Cons now nows)
  obtain bar1 statics1 etc where
    step: "update now (bar, statics) = Inr (bar1, statics1, etc)"
    and cold1: "etc_cold statics1"
    and same1: "delta_samples statics1 = delta_samples statics"
    using update_cold [OF Cons.prems] by blast
  obtain bar' statics' etcs where
    rest: "updates nows (bar1, statics1) = Inr (bar', statics', etcs)"
    and cold': "etc_cold statics'"
    and same': "delta_samples statics' = delta_samples statics1"
    using Cons.IH [OF cold1] by blast
  show ?case
    using step rest cold' same' same1 by simp
qed

text \<open>
  Claim C1 says that after a warm-up the estimator blends every fifth call. The code
  does not get there. The counter is incremented only behind the warm-up test, which
  returns while the counter is zero, and the window is filled only by a blend update:
  so in a process that starts with the statics not initialised, every call of
  \<^verbatim>\<open>calculate_etc\<close>, by whichever bar and at whichever clock reading, returns the
  sentinel or the plain \<^verbatim>\<open>overall_etc\<close>, and leaves the counter at zero and the window
  without samples. The same holds for any run of updates of a bar.
\<close>

theorem blend_update_unreachable:
  "(\<exists>statics.
      calculate_etc_calls cs None =
        Inr (map (\<lambda>c. if m_progress (fst c) = 0 \<or> m_total (fst c) = 0 then UNAVAILABLE
                       else overall_etc (fst c) (snd c)) cs,
             statics)
      \<and> etc_cold statics \<and> delta_samples statics = [])
   \<and> (\<exists>bar' statics etcs.
        updates nows (bar, None) = Inr (bar', statics, etcs)
        \<and> etc_cold statics \<and> delta_samples statics = [])"
proof -
  have cold: "etc_cold None"
    by (simp add: etc_cold_def)
  have none: "delta_samples None = []"
    by (simp add: delta_samples_def)
  show ?thesis
    using calculate_etc_calls_cold [OF cold, of cs] updates_cold [OF cold, of nows bar]
    by (simp only: none)
qed


text \<open>
  What the two branches behind the warm-up test would do, from statics in which the
  counter is not zero and the window holds at least \<^verbatim>\<open>CIRCULAR_BUFFER\<close> samples. A blend
  update resets the counter to zero, so the call after it is a warm-up call again.
\<close>

lemma calculate_etc_blend:
  assumes "m_progress bar \<noteq> 0" and "m_total bar \<noteq> 0"
    and "\<not> warming_up bar (Some st)"
    and "unat (m_update_counter st + 1) mod 5 = 0"
    and "push (duration_cast_ms (now - m_last_tick_time st)) (m_delta_times st) = Inr window"
    and "mean_local window = Inr (Some recent_avg_time)"
    and "(double_of_size_t (overall_etc bar now)
            + recent_avg_time
                * (double_of_size_t (m_total bar) - double_of_size_t (m_progress bar))
                / double_of_size_t (m_progress bar)) / 2 = combined_etc"
    and "double_to_rep combined_etc = Inr r"
  shows "calculate_etc bar now (Some st) =
           Inr (r, Some (st\<lparr>m_update_counter := 0, m_delta_times := window,
                             m_last_tick_time := now, m_last_etc := combined_etc\<rparr>))"
  using assms
  by (simp add: calculate_etc_def warming_up_def UPDATE_INTERVAL_def Let_def)

lemma calculate_etc_cached:
  assumes "m_progress bar \<noteq> 0" and "m_total bar \<noteq> 0"
    and "\<not> warming_up bar (Some st)"
    and "unat (m_update_counter st + 1) mod 5 \<noteq> 0"
    and "double_to_rep (m_last_etc st) = Inr r"
  shows "calculate_etc bar now (Some st) =
           Inr (r, Some (st\<lparr>m_update_counter := m_update_counter st + 1\<rparr>))"
  using assms
  by (simp add: calculate_etc_def warming_up_def UPDATE_INTERVAL_def Let_def)

lemma blend_leaves_cold:
  "etc_cold (Some (st\<lparr>m_update_counter := 0, m_delta_times := window,
                        m_last_tick_time := now, m_last_etc := combined_etc\<rparr>))"
  by (simp add: etc_cold_def)

text \<open>
  Twelve updates of a bar with a total of 100, one every 100 ms, in a fresh process:
  each estimate is \<open>100 * (100 - progress)\<close> ms, the plain extrapolation.
\<close>

lemma twelve_updates_of_a_hundred:
  "updates [100000000, 200000000, 300000000, 400000000, 500000000, 600000000,
            700000000, 800000000, 900000000, 1000000000, 1100000000, 1200000000]
     (ProgressBar_new 100 0, None)
   = Inr (\<lparr>m_total = 100, m_progress = 12, m_start_time = 0\<rparr>,
          Some \<lparr>m_delta_times = \<lparr>m_max_size = 10, m_buffer = []\<rparr>,
                m_last_etc = 8800, m_update_counter = 0, m_last_tick_time = 1200000000\<rparr>,
          [Some 9900, Some 9800, Some 9700, Some 9600, Some 9500, Some 9400,
           Some 9300, Some 9200, Some 9100, Some 9000, Some 8900, Some 8800])"
  by (simp add: update_def tick_def display_def is_done_def clamp_def SIZE_MAX_def
      ProgressBar_new_def calculate_etc_def init_statics_def etc_capacity_def
      CIRCULAR_BUFFER_def CircularBuffer_new_def size_cb_def overall_etc_def
      duration_cast_ms_def double_of_size_t_def word_le_nat_alt word_less_nat_alt)

section \<open>One estimator state for all bars\<close>

lemma calculate_etc_calls_initialised:
  assumes "m_update_counter st = 0"
  shows "\<exists>etcs.
           calculate_etc_calls cs (Some st) =
             Inr (etcs,
                  Some (case filter passes_guard cs of
                          [] \<Rightarrow> st
                        | c # cs' \<Rightarrow>
                            st\<lparr>m_last_tick_time := snd (last (c # cs')),
                               m_last_etc :=
                                 double_of_size_t
                                   (overall_etc (fst (last (c # cs'))) (snd (last (c # cs'))))\<rparr>))"
  using assms
proof (induction cs arbitrary: st)
  case Nil
  then show ?case by simp
next
  case (Cons c cs)
  have cold: "etc_cold (Some st)"
    using Cons.prems by (simp add: etc_cold_def)
  show ?case
  proof (cases "passes_guard c")
    case False
    then have step: "calculate_etc (fst c) (snd c) (Some st) = Inr (UNAVAILABLE, Some st)"
      by (simp add: calculate_etc_cold [OF cold] passes_guard_def)
    from Cons.IH [OF Cons.prems] step False show ?thesis
      by auto
  next
    case True
    let ?st1 = "st\<lparr>m_last_tick_time := snd c,
                    m_last_etc := double_of_size_t (overall_etc (fst c) (snd c))\<rparr>"
    have step: "calculate_etc (fst c) (snd c) (Some st) = Inr (overall_etc (fst c) (snd c), Some ?st1)"
      using True by (simp add: calculate_etc_cold [OF cold] passes_guard_def)
    have "m_update_counter ?st1 = 0"
      using Cons.prems by simp
    from Cons.IH [OF this] step True show ?thesis
      by (auto split: list.splits)
  qed
qed

lemma calculate_etc_calls_fresh:
  "\<exists>etcs.
     calculate_etc_calls cs None =
       Inr (etcs,
            case filter passes_guard cs of
              [] \<Rightarrow> None
            | c # cs' \<Rightarrow>
                Some \<lparr>m_delta_times = CircularBuffer_new (etc_capacity (m_total (fst c))),
                      m_last_etc =
                        double_of_size_t
                          (overall_etc (fst (last (c # cs'))) (snd (last (c # cs')))),
                      m_update_counter = 0,
                      m_last_tick_time = snd (last (c # cs'))\<rparr>)"
proof (induction cs)
  case Nil
  then show ?case by simp
next
  case (Cons c cs)
  have cold: "etc_cold None"
    by (simp add: etc_cold_def)
  show ?case
  proof (cases "passes_guard c")
    case False
    then have step: "calculate_etc (fst c) (snd c) None = Inr (UNAVAILABLE, None)"
      by (simp add: calculate_etc_cold [OF cold] passes_guard_def)
    from Cons.IH step False show ?thesis
      by auto
  next
    case True
    let ?st1 = "(init_statics (fst c))\<lparr>m_last_tick_time := snd c,
                    m_last_etc := double_of_size_t (overall_etc (fst c) (snd c))\<rparr>"
    have step: "calculate_etc (fst c) (snd c) None = Inr (overall_etc (fst c) (snd c), Some ?st1)"
      using True by (simp add: calculate_etc_cold [OF cold] passes_guard_def)
    have "m_update_counter ?st1 = 0"
      by (simp add: init_statics_def)
    from calculate_etc_calls_initialised [OF this, of cs] step True show ?thesis
      by (auto simp add: init_statics_def split: list.splits)
  qed
qed

text \<open>
  Claim C6, as amended. The estimator state is not owned by a bar: it is the statics of
  \<^verbatim>\<open>calculate_etc\<close>, one copy in the process. After any calls by any bars in a fresh
  process, the statics exist as soon as one call got past the first test; the capacity
  of the window is derived from the total of the bar that made the first such call,
  and the cached estimate and the last tick time are those written by the last such
  call, whichever bar made it.
\<close>

theorem statics_shared_by_all_bars:
  "\<exists>etcs.
     calculate_etc_calls cs None =
       Inr (etcs,
            case filter passes_guard cs of
              [] \<Rightarrow> None
            | c # cs' \<Rightarrow>
                Some \<lparr>m_delta_times = CircularBuffer_new (etc_capacity (m_total (fst c))),
                      m_last_etc =
                        double_of_size_t
                          (overall_etc (fst (last (c # cs'))) (snd (last (c # cs')))),
                      m_update_counter = 0,
                      m_last_tick_time = snd (last (c # cs'))\<rparr>)"
  by (rule calculate_etc_calls_fresh)

theorem statics_shared_by_all_bars_witness:
  "\<exists>etcs.
     calculate_etc_calls
       [(\<lparr>m_total = 100, m_progress = 0, m_start_time = 0\<rparr>, 500000),
        (\<lparr>m_total = 100, m_progress = 1, m_start_time = 0\<rparr>, 1000000),
        (\<lparr>m_total = 4, m_progress = 1, m_start_time = 500000\<rparr>, 2500000)] None
     = Inr (etcs,
            Some \<lparr>m_delta_times = \<lparr>m_max_size = 10, m_buffer = []\<rparr>,
                  m_last_etc = 6, m_update_counter = 0, m_last_tick_time = 2500000\<rparr>)"
  using statics_shared_by_all_bars
    [of "[(\<lparr>m_total = 100, m_progress = 0, m_start_time = 0\<rparr>, 500000),
          (\<lparr>m_total = 100, m_progress = 1, m_start_time = 0\<rparr>, 1000000),
          (\<lparr>m_total = 4, m_progress = 1, m_start_time = 500000\<rparr>, 2500000)]"]
  by (simp add: passes_guard_def etc_capacity_def CIRCULAR_BUFFER_def CircularBuffer_new_def
      overall_etc_def duration_cast_ms_def double_of_size_t_def)

text \<open>
  A bar with a total of 4 that calls after a bar with a total of 100 finds the window of
  capacity 10 and overwrites the estimate the first bar cached; calling first, it would
  have made a window of capacity 2.
\<close>

theorem second_bar_inherits_window:
  "calculate_etc_calls
     [(\<lparr>m_total = 100, m_progress = 1, m_start_time = 0\<rparr>, 1000000),
      (\<lparr>m_total = 4, m_progress = 1, m_start_time = 500000\<rparr>, 2500000)] None
   = Inr ([99, 6],
          Some \<lparr>m_delta_times = \<lparr>m_max_size = 10, m_buffer = []\<rparr>,
                m_last_etc = 6, m_update_counter = 0, m_last_tick_time = 2500000\<rparr>)
   \<and> calculate_etc_calls
       [(\<lparr>m_total = 100, m_progress = 1, m_start_time = 0\<rparr>, 1000000)] None
     = Inr ([99],
            Some \<lparr>m_delta_times = \<lparr>m_max_size = 10, m_buffer = []\<rparr>,
                  m_last_etc = 99, m_update_counter = 0, m_last_tick_time = 1000000\<rparr>)
   \<and> calculate_etc_calls
       [(\<lparr>m_total = 4, m_progress = 1, m_start_time = 500000\<rparr>, 2500000)] None
     = Inr ([6],
            Some \<lparr>m_delta_times = \<lparr>m_max_size = 2, m_buffer = []\<rparr>,
                  m_last_etc = 6, m_update_counter = 0, m_last_tick_time = 2500000\<rparr>)
   \<and> etc_capacity 4 = 2"
  by (simp add: calculate_etc_def init_statics_def etc_capacity_def CIRCULAR_BUFFER_def
      CircularBuffer_new_def size_cb_def overall_etc_def duration_cast_ms_def double_of_size_t_def
      word_le_nat_alt word_less_nat_alt)

section \<open>The capacity of the window\<close>

lemma etc_capacity_min:
  "etc_capacity n = min 10 (unat n div 2)"
proof (cases "n > 2 * CIRCULAR_BUFFER")
  case True
  then have "20 < unat n"
    by (simp add: CIRCULAR_BUFFER_def word_less_nat_alt)
  with True show ?thesis
    by (simp add: etc_capacity_def CIRCULAR_BUFFER_def)
next
  case False
  then have "unat n \<le> 20"
    by (simp add: CIRCULAR_BUFFER_def word_less_nat_alt)
  with False show ?thesis
    by (simp add: etc_capacity_def unat_div)
qed

lemma push_never_faults:
  assumes "1 \<le> m_max_size cb"
  shows "\<exists>cb'. push v cb = Inr cb' \<and> m_max_size cb' = m_max_size cb"
  using assms
  by (cases "m_buffer cb") (auto simp add: push_def push_back_def)

lemma push_zero_capacity:
  "push v (CircularBuffer_new 0) = Inl PopFrontOnEmptyDeque"
  by (simp add: push_def push_back_def CircularBuffer_new_def)

lemma calculate_etc_initialises_window:
  assumes "m_progress bar \<noteq> 0" and "m_total bar \<noteq> 0"
  shows "\<exists>etc st.
           calculate_etc bar now None = Inr (etc, Some st)
           \<and> m_delta_times st =
                 \<lparr>m_max_size = min 10 (unat (m_total bar) div 2), m_buffer = []\<rparr>"
proof -
  have cold: "etc_cold None"
    by (simp add: etc_cold_def)
  show ?thesis
    using assms
    by (simp add: calculate_etc_cold [OF cold] init_statics_def CircularBuffer_new_def
        etc_capacity_min)
qed

lemma calculate_etc_keeps_window:
  assumes "m_update_counter st0 = 0"
  shows "\<exists>etc st.
           calculate_etc bar now (Some st0) = Inr (etc, Some st)
           \<and> m_delta_times st = m_delta_times st0"
proof -
  have cold: "etc_cold (Some st0)"
    using assms by (simp add: etc_cold_def)
  show ?thesis
    by (simp add: calculate_etc_cold [OF cold])
qed

text \<open>
  Claim C7, as amended. The estimator's window is constructed by the first call of
  \<^verbatim>\<open>calculate_etc\<close> that gets past the first test, empty and with the capacity
  \<open>min 10 (total div 2)\<close> of the total of the calling bar, with no floor: the capacity is
  at least 1 exactly when that total is at least 2. Every later call, by any bar, in
  statics whose counter is zero keeps that window, so that after any calls in a fresh
  process the window is the one the first such call made. The constructor of the window
  accepts every size. On a window of capacity at least 1 a push never runs into a
  fault and keeps the capacity, and any run of pushes into a fresh such window leaves
  at most \<open>capacity\<close> samples.
\<close>

theorem delta_window_capacity:
  fixes cb :: "'a CircularBuffer" and v :: 'a and vs :: "'a list"
  shows "(m_progress bar \<noteq> 0 \<and> m_total bar \<noteq> 0 \<longrightarrow>
            (\<exists>etc st.
               calculate_etc bar now None = Inr (etc, Some st)
               \<and> m_delta_times st =
                     \<lparr>m_max_size = min 10 (unat (m_total bar) div 2), m_buffer = []\<rparr>))
   \<and> (m_update_counter st0 = 0 \<longrightarrow>
            (\<exists>etc st.
               calculate_etc bar now (Some st0) = Inr (etc, Some st)
               \<and> m_delta_times st = m_delta_times st0))
   \<and> (\<exists>etcs statics.
         calculate_etc_calls cs None = Inr (etcs, statics)
         \<and> (case filter passes_guard cs of
                [] \<Rightarrow> statics = None
              | first # later \<Rightarrow>
                  \<exists>st. statics = Some st
                     \<and> m_delta_times st =
                           \<lparr>m_max_size = min 10 (unat (m_total (fst first)) div 2),
                            m_buffer = []\<rparr>))
   \<and> etc_capacity n = min 10 (unat n div 2)
   \<and> (1 \<le> etc_capacity n \<longleftrightarrow> 2 \<le> n)
   \<and> m_max_size (CircularBuffer_new c :: 'a CircularBuffer) = c
   \<and> (1 \<le> m_max_size cb \<longrightarrow> (\<exists>cb'. push v cb = Inr cb' \<and> m_max_size cb' = m_max_size cb))
   \<and> (1 \<le> c \<longrightarrow>
         (\<exists>cb'. push_all vs (CircularBuffer_new c) = Inr cb' \<and> m_max_size cb' = c
                \<and> size_cb cb' \<le> c))"
proof (intro conjI impI)
  show "\<exists>etcs statics.
          calculate_etc_calls cs None = Inr (etcs, statics)
          \<and> (case filter passes_guard cs of
                 [] \<Rightarrow> statics = None
               | first # later \<Rightarrow>
                   \<exists>st. statics = Some st
                      \<and> m_delta_times st =
                            \<lparr>m_max_size = min 10 (unat (m_total (fst first)) div 2),
                             m_buffer = []\<rparr>)"
    using calculate_etc_calls_fresh [of cs]
    by (auto simp add: CircularBuffer_new_def etc_capacity_min split: list.splits)
  show "\<exists>etc st.
          calculate_etc bar now None = Inr (etc, Some st)
          \<and> m_delta_times st = \<lparr>m_max_size = min 10 (unat (m_total bar) div 2), m_buffer = []\<rparr>"
    if "m_progress bar \<noteq> 0 \<and> m_total bar \<noteq> 0"
    using that by (intro calculate_etc_initialises_window) simp_all
  show "\<exists>etc st.
          calculate_etc bar now (Some st0) = Inr (etc, Some st)
          \<and> m_delta_times st = m_delta_times st0"
    if "m_update_counter st0 = 0"
    using that by (rule calculate_etc_keeps_window)
  show "etc_capacity n = min 10 (unat n div 2)"
    by (rule etc_capacity_min)
  show "1 \<le> etc_capacity n \<longleftrightarrow> 2 \<le> n"
    by (simp add: etc_capacity_min word_le_nat_alt) arith
  show "m_max_size (CircularBuffer_new c :: 'a CircularBuffer) = c"
    by (simp add: CircularBuffer_new_def)
  show "\<exists>cb'. push v cb = Inr cb' \<and> m_max_size cb' = m_max_size cb" if "1 \<le> m_max_size cb"
    using that by (rule push_never_faults)
  show "\<exists>cb'. push_all vs (CircularBuffer_new c) = Inr cb' \<and> m_max_size cb' = c \<and> size_cb cb' \<le> c"
    if "1 \<le> c"
    using that push_all_drop [of "CircularBuffer_new c" vs]
    by (simp add: CircularBuffer_new_def size_cb_def)
qed

theorem delta_window_capacity_witness:
  "m_progress \<lparr>m_total = 7, m_progress = 1, m_start_time = 0\<rparr> \<noteq> 0
   \<and> m_total \<lparr>m_total = 7, m_progress = 1, m_start_time = 0\<rparr> \<noteq> 0
   \<and> (\<exists>etc st.
         calculate_etc \<lparr>m_total = 7, m_progress = 1, m_start_time = 0\<rparr> 1000000 None
           = Inr (etc, Some st)
         \<and> m_delta_times st = \<lparr>m_max_size = 3, m_buffer = []\<rparr>)
   \<and> m_update_counter
         \<lparr>m_delta_times = \<lparr>m_max_size = 3, m_buffer = []\<rparr>, m_last_etc = 6,
          m_update_counter = 0, m_last_tick_time = 1000000\<rparr> = 0
   \<and> (\<exists>etc st.
         calculate_etc \<lparr>m_total = 100, m_progress = 1, m_start_time = 0\<rparr> 2000000
           (Some \<lparr>m_delta_times = \<lparr>m_max_size = 3, m_buffer = []\<rparr>, m_last_etc = 6,
                  m_update_counter = 0, m_last_tick_time = 1000000\<rparr>)
           = Inr (etc, Some st)
         \<and> m_delta_times st = \<lparr>m_max_size = 3, m_buffer = []\<rparr>)
   \<and> (\<exists>etcs st.
         calculate_etc_calls
           [(\<lparr>m_total = 7, m_progress = 0, m_start_time = 0\<rparr>, 500000),
            (\<lparr>m_total = 7, m_progress = 1, m_start_time = 0\<rparr>, 1000000),
            (\<lparr>m_total = 100, m_progress = 1, m_start_time = 0\<rparr>, 2000000)] None
           = Inr (etcs, Some st)
         \<and> m_delta_times st = \<lparr>m_max_size = 3, m_buffer = []\<rparr>)
   \<and> etc_capacity 100 = 10 \<and> etc_capacity 2 = 1
   \<and> (1::nat) \<le> m_max_size (CircularBuffer_new 3 :: int CircularBuffer)
   \<and> (\<exists>cb'. push (5::int) (CircularBuffer_new 3) = Inr cb' \<and> m_max_size cb' = 3)
   \<and> (\<exists>cb'. push_all [1, 2, 3, 4 :: int] (CircularBuffer_new 3) = Inr cb' \<and> size_cb cb' \<le> 3)"
proof -
  let ?bar = "\<lparr>m_total = 7, m_progress = 1, m_start_time = 0\<rparr>"
  let ?bar2 = "\<lparr>m_total = 100, m_progress = 1, m_start_time = 0\<rparr>"
  let ?st0 = "\<lparr>m_delta_times = \<lparr>m_max_size = 3, m_buffer = []\<rparr>, m_last_etc = 6,
               m_update_counter = 0, m_last_tick_time = 1000000\<rparr>"
  let ?cb = "CircularBuffer_new 3 :: int CircularBuffer"
  let ?cs = "[(\<lparr>m_total = 7, m_progress = 0, m_start_time = 0\<rparr>, 500000),
              (?bar, 1000000), (?bar2, 2000000)]"
  note thm1 = delta_window_capacity [of ?bar 1000000 ?st0 ?cs 100 3 ?cb 5 "[1, 2, 3, 4 :: int]"]
  note thm2 = delta_window_capacity [of ?bar2 2000000 ?st0 ?cs 2 3 ?cb 5 "[1, 2, 3, 4 :: int]"]
  have g: "m_progress ?bar \<noteq> 0" "m_total ?bar \<noteq> 0"
    by simp_all
  have a: "\<exists>etc st. calculate_etc ?bar 1000000 None = Inr (etc, Some st)
             \<and> m_delta_times st = \<lparr>m_max_size = 3, m_buffer = []\<rparr>"
    using thm1 [THEN conjunct1] by simp
  have k: "m_update_counter ?st0 = 0"
    by simp
  have b: "\<exists>etc st. calculate_etc ?bar2 2000000 (Some ?st0) = Inr (etc, Some st)
             \<and> m_delta_times st = \<lparr>m_max_size = 3, m_buffer = []\<rparr>"
    using thm2 [THEN conjunct2, THEN conjunct1] by simp
  have r: "\<exists>etcs st.
             calculate_etc_calls
               [(\<lparr>m_total = 7, m_progress = 0, m_start_time = 0\<rparr>, 500000),
                (\<lparr>m_total = 7, m_progress = 1, m_start_time = 0\<rparr>, 1000000),
                (\<lparr>m_total = 100, m_progress = 1, m_start_time = 0\<rparr>, 2000000)] None
               = Inr (etcs, Some st)
             \<and> m_delta_times st = \<lparr>m_max_size = 3, m_buffer = []\<rparr>"
    using thm1 [THEN conjunct2, THEN conjunct2, THEN conjunct1]
    by (auto simp add: passes_guard_def)
  have c: "etc_capacity 100 = 10"
    using thm1 [THEN conjunct2, THEN conjunct2, THEN conjunct2, THEN conjunct1] by simp
  have d: "etc_capacity 2 = 1"
    using thm2 [THEN conjunct2, THEN conjunct2, THEN conjunct2, THEN conjunct1] by simp
  have h: "(1::nat) \<le> m_max_size ?cb"
    by (simp add: CircularBuffer_new_def)
  have e: "\<exists>cb'. push (5::int) ?cb = Inr cb' \<and> m_max_size cb' = 3"
    using thm1 h by (simp add: CircularBuffer_new_def)
  have f: "\<exists>cb'. push_all [1, 2, 3, 4 :: int] (CircularBuffer_new 3) = Inr cb' \<and> size_cb cb' \<le> 3"
    using thm1 by auto
  from g a k b r c d h e f show ?thesis
    by blast
qed

text \<open>
  The first estimate of a bar with a total of 1 constructs the window with capacity 0;
  the constructor accepts it, and a push into such a window pops an empty deque.
\<close>

theorem zero_capacity_window_created:
  "calculate_etc \<lparr>m_total = 1, m_progress = 1, m_start_time = 0\<rparr> 1000000 None
     = Inr (0,
            Some \<lparr>m_delta_times = \<lparr>m_max_size = 0, m_buffer = []\<rparr>,
                  m_last_etc = 0, m_update_counter = 0, m_last_tick_time = 1000000\<rparr>)
   \<and> etc_capacity 1 = 0
   \<and> (CircularBuffer_new 0 :: int CircularBuffer) = \<lparr>m_max_size = 0, m_buffer = []\<rparr>
   \<and> push (5 :: int) (CircularBuffer_new 0) = Inl PopFrontOnEmptyDeque"
  by (simp add: calculate_etc_def init_statics_def etc_capacity_def CIRCULAR_BUFFER_def
      CircularBuffer_new_def size_cb_def overall_etc_def duration_cast_ms_def double_of_size_t_def
      word_le_nat_alt word_less_nat_alt push_def push_back_def)

section \<open>Mean, variance and standard deviation\<close>

lemma foldl_plus_sum_list:
  fixes f :: "'a \<Rightarrow> real"
  shows "foldl (\<lambda>acc x. acc + f x) a xs = a + sum_list (map f xs)"
  by (induction xs arbitrary: a) simp_all

lemma T_add_Inr:
  "T_add a b = Inr s \<Longrightarrow> s = a + b"
  by (simp add: T_add_def split: if_splits)

lemma T_add_half_range:
  assumes "- (2 ^ 62) \<le> a" "a < 2 ^ 62" "- (2 ^ 62) \<le> b" "b < 2 ^ 62"
  shows "T_add a b = Inr (a + b)"
  using assms by (simp add: T_add_def T_min_def T_max_def)

lemma reduce_from_sum:
  "reduce_from init xs = Inr s \<Longrightarrow> s = init + (\<Sum>x\<leftarrow>xs. real_of_int x)"
proof (induction init xs arbitrary: s rule: reduce_from.induct)
  case (1 init a b c d rest)
  from "1.prems" obtain v1 where v1: "T_add a b = Inr v1"
    by (cases "T_add a b") simp_all
  from "1.prems" v1 obtain v2 where v2: "T_add c d = Inr v2"
    by (cases "T_add c d") simp_all
  from "1.prems" v1 v2
  have "reduce_from (init + (real_of_int v1 + real_of_int v2)) rest = Inr s"
    by simp
  from "1.IH" [OF v1 v2 this] T_add_Inr [OF v1] T_add_Inr [OF v2] show ?case
    by simp
qed (simp_all add: foldl_plus_sum_list)

lemma reduce_from_half_range:
  assumes "\<forall>x \<in> set xs. - (2 ^ 62) \<le> x \<and> x < 2 ^ 62"
  shows "reduce_from init xs = Inr (init + (\<Sum>x\<leftarrow>xs. real_of_int x))"
  using assms
proof (induction init xs rule: reduce_from.induct)
  case (1 init a b c d rest)
  have v1: "T_add a b = Inr (a + b)" and v2: "T_add c d = Inr (c + d)"
    using "1.prems" by (simp_all add: T_add_half_range)
  have "\<forall>x \<in> set rest. - (2 ^ 62) \<le> x \<and> x < 2 ^ 62"
    using "1.prems" by simp
  from "1.IH" [OF v1 v2 this] v1 v2 show ?case
    by simp
qed (simp_all add: foldl_plus_sum_list)

lemma reduce_from_short:
  assumes "length xs < 4"
  shows "reduce_from init xs = Inr (init + (\<Sum>x\<leftarrow>xs. real_of_int x))"
  using assms
  by (induction init xs rule: reduce_from.induct) (simp_all add: foldl_plus_sum_list)

lemma mean_local_empty:
  "m_buffer cb = [] \<Longrightarrow> mean_local cb = Inr None"
  by (simp add: mean_local_def)

lemma mean_local_never_None:
  "m_buffer cb \<noteq> [] \<Longrightarrow> mean_local cb \<noteq> Inr None"
  by (simp add: mean_local_def split: sum.splits)

lemma mean_local_value:
  assumes "mean_local cb = Inr (Some m)"
  shows "m = (\<Sum>x\<leftarrow>m_buffer cb. real_of_int x) / real (length (m_buffer cb))"
proof -
  from assms have ne: "m_buffer cb \<noteq> []"
    by (auto simp add: mean_local_def)
  with assms obtain s where s: "reduce_from 0 (m_buffer cb) = Inr s"
    and m: "m = s / real (length (m_buffer cb))"
    by (auto simp add: mean_local_def reduce_double_def split: sum.splits)
  from reduce_from_sum [OF s] m show ?thesis
    by simp
qed

lemma mean_local_half_range:
  assumes "m_buffer cb \<noteq> []"
    and "\<forall>x \<in> set (m_buffer cb). - (2 ^ 62) \<le> x \<and> x < 2 ^ 62"
  shows "mean_local cb =
           Inr (Some ((\<Sum>x\<leftarrow>m_buffer cb. real_of_int x) / real (length (m_buffer cb))))"
  using assms by (simp add: mean_local_def reduce_double_def reduce_from_half_range)

lemma mean_local_short:
  assumes "m_buffer cb \<noteq> []" and "length (m_buffer cb) < 4"
  shows "mean_local cb =
           Inr (Some ((\<Sum>x\<leftarrow>m_buffer cb. real_of_int x) / real (length (m_buffer cb))))"
  using assms by (simp add: mean_local_def reduce_double_def reduce_from_short)

lemma variance_local_empty:
  "m_buffer cb = [] \<Longrightarrow> variance_local cb = Inr None"
  by (simp add: variance_local_def)

lemma variance_local_of_mean:
  assumes "m_buffer cb \<noteq> []" and "mean_local cb = Inr (Some m)"
  shows "variance_local cb =
           Inr (Some ((\<Sum>x\<leftarrow>m_buffer cb.
                         (real_of_int x
                            - (\<Sum>y\<leftarrow>m_buffer cb. real_of_int y) / real (length (m_buffer cb))) ^ 2)
                      / real (length (m_buffer cb))))"
  using assms mean_local_value [OF assms(2)]
  by (simp add: variance_local_def foldl_plus_sum_list)

lemma variance_local_faults_with_mean:
  assumes "m_buffer cb \<noteq> []" and "mean_local cb = Inl f"
  shows "variance_local cb = Inl f"
  using assms by (simp add: variance_local_def)

lemma variance_local_half_range:
  assumes "m_buffer cb \<noteq> []"
    and "\<forall>x \<in> set (m_buffer cb). - (2 ^ 62) \<le> x \<and> x < 2 ^ 62"
  shows "variance_local cb =
           Inr (Some ((\<Sum>x\<leftarrow>m_buffer cb.
                         (real_of_int x
                            - (\<Sum>y\<leftarrow>m_buffer cb. real_of_int y) / real (length (m_buffer cb))) ^ 2)
                      / real (length (m_buffer cb))))"
  using assms(1) mean_local_half_range [OF assms] by (rule variance_local_of_mean)

lemma standardDeviation_local_sqrt:
  "standardDeviation_local cb =
     (case variance_local cb of
        Inl f \<Rightarrow> Inl f
      | Inr var \<Rightarrow> Inr (map_option sqrt var))"
  by (simp add: standardDeviation_local_def split: sum.splits option.splits)

lemma variance_of_one_two_three:
  "variance_local \<lparr>m_max_size = 3, m_buffer = [1, 2, 3]\<rparr> = Inr (Some (2 / 3))"
  by (simp add: variance_local_def mean_local_def reduce_double_def power2_eq_square)

lemma standardDeviation_of_one_two_three:
  "standardDeviation_local \<lparr>m_max_size = 3, m_buffer = [1, 2, 3]\<rparr> = Inr (Some (sqrt (2 / 3)))"
  by (simp add: standardDeviation_local_def variance_of_one_two_three)

text \<open>
  Claim C9 says that on every non-empty window \<^verbatim>\<open>variance()\<close> is the population
  variance and \<^verbatim>\<open>standardDeviation()\<close> its square root. The lemmas above give what
  holds: both are absent on an empty window; whenever \<^verbatim>\<open>mean()\<close> returns, the variance
  is the sum of the squared deviations from the mean divided by the number \<open>N\<close> of
  samples (not by \<open>N - 1\<close>), and the standard deviation is its square root; \<^verbatim>\<open>mean()\<close>
  returns on every window of fewer than four samples and on every window whose samples
  lie between \<open>-2\<^sup>6\<^sup>2\<close> and \<open>2\<^sup>6\<^sup>2 - 1\<close>; the variance of \<open>[1, 2, 3]\<close> is \<open>2/3\<close> and its
  standard deviation \<open>sqrt (2/3)\<close>. But \<^verbatim>\<open>variance()\<close> takes the mean from \<^verbatim>\<open>mean()\<close>,
  whose \<^verbatim>\<open>std::reduce\<close> adds pairs of samples in the element type: on a window of four
  samples of \<open>2\<^sup>6\<^sup>2\<close>, all values of the type, the first pair overflows, and neither the
  variance 0 nor the standard deviation 0 is returned.
\<close>

theorem variance_mean_overflows:
  "mean_local
     \<lparr>m_max_size = 4,
      m_buffer = [4611686018427387904, 4611686018427387904,
                  4611686018427387904, 4611686018427387904]\<rparr> = Inl SignedOverflow
   \<and> variance_local
       \<lparr>m_max_size = 4,
        m_buffer = [4611686018427387904, 4611686018427387904,
                    4611686018427387904, 4611686018427387904]\<rparr> = Inl SignedOverflow
   \<and> standardDeviation_local
       \<lparr>m_max_size = 4,
        m_buffer = [4611686018427387904, 4611686018427387904,
                    4611686018427387904, 4611686018427387904]\<rparr> = Inl SignedOverflow
   \<and> T_min \<le> 4611686018427387904 \<and> 4611686018427387904 \<le> T_max"
  by (simp add: standardDeviation_local_def variance_local_def mean_local_def reduce_double_def
      T_add_def T_min_def T_max_def)

section \<open>The median\<close>

lemma median_local_odd:
  assumes "m_buffer cb \<noteq> []" and "odd (length (m_buffer cb))"
  shows "median_local cb =
           Inr (Some (real_of_int (sort (m_buffer cb) ! (length (m_buffer cb) div 2))))"
proof -
  have "length (m_buffer cb) div 2 < length (m_buffer cb)"
    using assms(1) by simp
  then show ?thesis
    using assms by (simp add: median_local_def vector_at_def Let_def odd_iff_mod_2_eq_one)
qed

lemma even_middle:
  assumes "xs \<noteq> []" and "even (length xs)"
  shows "length xs div 2 \<noteq> 0" and "length xs div 2 - 1 < length xs"
    and "length xs div 2 < length xs"
proof -
  from assms have "2 \<le> length xs"
    by (cases xs) (auto simp add: Suc_le_eq)
  then show "length xs div 2 \<noteq> 0" and "length xs div 2 - 1 < length xs"
    and "length xs div 2 < length xs"
    by simp_all
qed

lemma median_local_even:
  assumes "m_buffer cb \<noteq> []" and "even (length (m_buffer cb))"
  shows "median_local cb =
           (case T_add (sort (m_buffer cb) ! (length (m_buffer cb) div 2 - 1))
                       (sort (m_buffer cb) ! (length (m_buffer cb) div 2)) of
              Inl f \<Rightarrow> Inl f
            | Inr s \<Rightarrow> Inr (Some (real_of_int s / 2)))"
  using assms even_middle [OF assms]
  by (simp add: median_local_def vector_at_def size_t_pred_def Let_def)

lemma median_local_never_throws:
  "median_local cb \<noteq> Inl VectorAtOutOfRange"
proof (cases "m_buffer cb = []")
  case True
  then show ?thesis
    by (simp add: median_local_def)
next
  case False
  show ?thesis
  proof (cases "even (length (m_buffer cb))")
    case True
    with False show ?thesis
      by (simp add: median_local_even T_add_def)
  next
    case False
    with \<open>m_buffer cb \<noteq> []\<close> show ?thesis
      by (simp add: median_local_odd)
  qed
qed

lemma median_local_even_in_range:
  assumes "m_buffer cb \<noteq> []" and "even (length (m_buffer cb))"
    and "T_min \<le> sort (m_buffer cb) ! (length (m_buffer cb) div 2 - 1)
                    + sort (m_buffer cb) ! (length (m_buffer cb) div 2)"
    and "sort (m_buffer cb) ! (length (m_buffer cb) div 2 - 1)
           + sort (m_buffer cb) ! (length (m_buffer cb) div 2) \<le> T_max"
  shows "median_local cb =
           Inr (Some (real_of_int (sort (m_buffer cb) ! (length (m_buffer cb) div 2 - 1)
                                     + sort (m_buffer cb) ! (length (m_buffer cb) div 2)) / 2))"
  using assms by (simp add: median_local_even T_add_def)

lemma median_local_empty:
  "m_buffer cb = [] \<Longrightarrow> median_local cb = Inr None"
  by (simp add: median_local_def)

lemma median_of_one_to_five:
  "median_local \<lparr>m_max_size = 5, m_buffer = [1, 2, 3, 4, 5]\<rparr> = Inr (Some 3)"
  by (simp add: median_local_def vector_at_def Let_def)

lemma median_of_one_to_four:
  "median_local \<lparr>m_max_size = 5, m_buffer = [1, 2, 3, 4]\<rparr> = Inr (Some (5 / 2))"
  by (simp add: median_local_def vector_at_def size_t_pred_def T_add_def T_min_def T_max_def
      Let_def)

lemma median_of_unsorted:
  "median_local \<lparr>m_max_size = 5, m_buffer = [4, 1, 3, 2]\<rparr> = Inr (Some (5 / 2))"
  by (simp add: median_local_def vector_at_def size_t_pred_def T_add_def T_min_def T_max_def
      Let_def)

text \<open>
  Claim C8 says that for an even count \<^verbatim>\<open>median()\<close> is the average of the two middle
  elements. The code adds the two elements in the element type before it converts to
  double, so on a window of two samples of \<open>2\<^sup>6\<^sup>2\<close> ms, both values of the type, the sum
  overflows: the behaviour is undefined and the average \<open>2\<^sup>6\<^sup>2\<close> is not returned. The lemmas
  above give what holds: no exception of \<^verbatim>\<open>at\<close>, the middle element for an odd count,
  the average for an even count whenever the sum of the two middle elements is a value
  of the type, and the two examples of the claim.
\<close>

theorem median_sum_overflows:
  "median_local \<lparr>m_max_size = 2, m_buffer = [4611686018427387904, 4611686018427387904]\<rparr>
     = Inl SignedOverflow
   \<and> T_min \<le> 4611686018427387904 \<and> 4611686018427387904 \<le> T_max"
  by (simp add: median_local_def vector_at_def size_t_pred_def T_add_def T_min_def T_max_def
      Let_def)


lemma sum_list_between:
  fixes xs :: "int list"
  assumes "xs \<noteq> []"
  shows "real (length xs) * real_of_int (Min (set xs)) \<le> (\<Sum>x\<leftarrow>xs. real_of_int x)"
    and "(\<Sum>x\<leftarrow>xs. real_of_int x) \<le> real (length xs) * real_of_int (Max (set xs))"
proof -
  have "(\<Sum>x\<leftarrow>xs. real_of_int (Min (set xs))) \<le> (\<Sum>x\<leftarrow>xs. real_of_int x)"
    by (rule sum_list_mono) simp
  then show "real (length xs) * real_of_int (Min (set xs)) \<le> (\<Sum>x\<leftarrow>xs. real_of_int x)"
    by (simp add: sum_list_triv)
  have "(\<Sum>x\<leftarrow>xs. real_of_int x) \<le> (\<Sum>x\<leftarrow>xs. real_of_int (Max (set xs)))"
    by (rule sum_list_mono) simp
  then show "(\<Sum>x\<leftarrow>xs. real_of_int x) \<le> real (length xs) * real_of_int (Max (set xs))"
    by (simp add: sum_list_triv)
qed

lemma mean_between_minimum_maximum:
  assumes "m_buffer cb \<noteq> []" and "mean_local cb = Inr (Some m)"
  shows "\<exists>lo hi. minimum_local cb = Some lo \<and> maximum_local cb = Some hi
           \<and> real_of_int lo \<le> m \<and> m \<le> real_of_int hi"
proof -
  let ?xs = "m_buffer cb"
  let ?n = "real (length ?xs)"
  have m: "m = (\<Sum>x\<leftarrow>?xs. real_of_int x) / ?n"
    using assms(2) by (rule mean_local_value)
  have n: "0 < ?n"
    using assms(1) by simp
  have lo: "real_of_int (Min (set ?xs)) \<le> m"
    unfolding m using sum_list_between(1) [OF assms(1)] n
    by (simp add: pos_le_divide_eq mult.commute)
  have hi: "m \<le> real_of_int (Max (set ?xs))"
    unfolding m using sum_list_between(2) [OF assms(1)] n
    by (simp add: pos_divide_le_eq mult.commute)
  show ?thesis
    using assms(1) lo hi by (simp add: minimum_local_Min maximum_local_Max)
qed

lemma median_between_minimum_maximum:
  assumes "m_buffer cb \<noteq> []" and "median_local cb = Inr (Some m)"
  shows "real_of_int (Min (set (m_buffer cb))) \<le> m \<and> m \<le> real_of_int (Max (set (m_buffer cb)))"
proof (cases "even (length (m_buffer cb))")
  case False
  let ?x = "sort (m_buffer cb) ! (length (m_buffer cb) div 2)"
  have m: "m = real_of_int ?x"
    using assms False by (simp add: median_local_odd)
  have "length (m_buffer cb) div 2 < length (sort (m_buffer cb))"
    using assms(1) by simp
  then have "?x \<in> set (sort (m_buffer cb))"
    by (rule nth_mem)
  then have "?x \<in> set (m_buffer cb)"
    by simp
  then have "Min (set (m_buffer cb)) \<le> ?x" and "?x \<le> Max (set (m_buffer cb))"
    by simp_all
  with m show ?thesis
    by simp
next
  case True
  let ?a = "sort (m_buffer cb) ! (length (m_buffer cb) div 2 - 1)"
  let ?b = "sort (m_buffer cb) ! (length (m_buffer cb) div 2)"
  have m: "m = real_of_int (?a + ?b) / 2"
    using assms True by (simp add: median_local_even T_add_def split: if_splits)
  have "length (m_buffer cb) div 2 - 1 < length (sort (m_buffer cb))"
    and "length (m_buffer cb) div 2 < length (sort (m_buffer cb))"
    using even_middle [OF assms(1) True] by simp_all
  then have "?a \<in> set (sort (m_buffer cb))" and "?b \<in> set (sort (m_buffer cb))"
    by (simp_all only: nth_mem)
  then have "?a \<in> set (m_buffer cb)" and "?b \<in> set (m_buffer cb)"
    by simp_all
  then have "Min (set (m_buffer cb)) \<le> ?a" and "?a \<le> Max (set (m_buffer cb))"
    and "Min (set (m_buffer cb)) \<le> ?b" and "?b \<le> Max (set (m_buffer cb))"
    by simp_all
  with m show ?thesis
    by simp
qed

text \<open>
  Claim C10 says that on a non-empty window the four statistics are present and that
  mean and median lie between minimum and maximum. Minimum and maximum are present,
  and mean and median lie between them whenever they return (the two lemmas above).
  On the window of the samples \<open>2\<^sup>6\<^sup>2\<close> and \<open>2\<^sup>6\<^sup>2 + 2048\<close> minimum, maximum and mean are
  present, and the median is not: the sum of the two samples overflows the element
  type. (All three values are doubles, so that no rounding is involved.)
\<close>

theorem median_faults_between_minimum_and_maximum:
  "minimum_local \<lparr>m_max_size = 2, m_buffer = [4611686018427387904 :: int, 4611686018427389952]\<rparr>
     = Some 4611686018427387904
   \<and> maximum_local \<lparr>m_max_size = 2, m_buffer = [4611686018427387904 :: int, 4611686018427389952]\<rparr>
       = Some 4611686018427389952
   \<and> mean_local \<lparr>m_max_size = 2, m_buffer = [4611686018427387904 :: int, 4611686018427389952]\<rparr>
       = Inr (Some 4611686018427388928)
   \<and> median_local \<lparr>m_max_size = 2, m_buffer = [4611686018427387904 :: int, 4611686018427389952]\<rparr>
       = Inl SignedOverflow
   \<and> 4611686018427389952 \<le> T_max"
  by (simp add: minimum_local_def maximum_local_def mean_local_def reduce_double_def
      median_local_def vector_at_def size_t_pred_def T_add_def T_min_def T_max_def Let_def)

end
